theory Spec2Isabelle
  imports Main "HOL-Library.Multiset" "HOL-Library.AList"
begin

section \<open>Window functions of dask-sql: the frame indexer\<close>

text \<open>
  The development follows \<^verbatim>\<open>dask_sql/physical/rel/logical/window.py\<close>.
  Python exceptions are values of the type \<open>error\<close>; a function that may raise
  returns \<open>error + 'a\<close>, with \<open>Inl\<close> for the exception. \<open>ConvertError\<close> stands for
  whatever the literal conversion of another module raises. \<open>OutOfNames\<close> is no
  exception: it says that the finite supply of random column names given to the model
  is used up, where the program would go on drawing.
\<close>

datatype error =
    AssertionError
  | TypeError
  | ValueError
  | IndexError
  | KeyError
  | NotImplementedError
  | ConvertError
  | OutOfNames

subsection \<open>Bound descriptions\<close>

text \<open>The named tuple \<^verbatim>\<open>BoundDescription\<close> (lines 67-78).\<close>

record BoundDescription =
  is_unbounded :: bool
  is_preceding :: bool
  is_following :: bool
  is_current_row :: bool
  offset :: "int option"

text \<open>
  The invariant the data model puts on a bound description: without an offset it is
  either unbounded (in one direction) or the current row; with an offset it is a
  non-negative row count in exactly one direction.
\<close>

definition valid_bound :: "BoundDescription \<Rightarrow> bool" where
  "valid_bound b =
     (case offset b of
        None \<Rightarrow>
          (if is_current_row b
           then \<not> is_unbounded b \<and> \<not> is_preceding b \<and> \<not> is_following b
           else is_unbounded b \<and> (is_preceding b \<noteq> is_following b))
      | Some k \<Rightarrow>
          0 \<le> k \<and> \<not> is_unbounded b \<and> \<not> is_current_row b
          \<and> (is_preceding b \<noteq> is_following b))"

subsection \<open>The numpy operations used by the indexer\<close>

text \<open>\<^verbatim>\<open>np.arange(a, a + n, dtype=np.int64)\<close>: the \<open>n\<close> integers from \<open>a\<close> on.\<close>

definition arange :: "int \<Rightarrow> nat \<Rightarrow> int list" where
  "arange a n = map (\<lambda>i. a + int i) [0..<n]"

text \<open>
  \<^verbatim>\<open>arr[:k] = v\<close> for a positive \<open>k\<close>: the first \<open>k\<close> entries (all of them when the
  array is shorter) are overwritten.
\<close>

definition assign_head :: "nat \<Rightarrow> int \<Rightarrow> int list \<Rightarrow> int list" where
  "assign_head k v arr = replicate (min k (length arr)) v @ drop k arr"

text \<open>
  \<^verbatim>\<open>arr[-k:] = v\<close> for a positive \<open>k\<close>: the last \<open>k\<close> entries (all of them when the
  array is shorter) are overwritten.
\<close>

definition assign_tail :: "nat \<Rightarrow> int \<Rightarrow> int list \<Rightarrow> int list" where
  "assign_tail k v arr = take (length arr - k) arr @ replicate (min k (length arr)) v"

subsection \<open>The class \<^verbatim>\<open>Indexer\<close>\<close>

text \<open>The two attributes set by \<^verbatim>\<open>Indexer.__init__\<close> (lines 119-120).\<close>

record Indexer =
  idx_start :: "int option"
  idx_end :: "int option"

text \<open>
  \<^verbatim>\<open>Indexer.get_window_bounds\<close> (lines 122-149). The array \<^verbatim>\<open>start\<close> is built
  first (lines 129-136), then the array \<^verbatim>\<open>end\<close> (lines 137-148), whose last branch
  raises \<^verbatim>\<open>AssertionError\<close>.
\<close>

definition window_start :: "int option \<Rightarrow> nat \<Rightarrow> int list" where
  "window_start self_start num_values =
     (case self_start of
        None \<Rightarrow> replicate num_values 0
      | Some s \<Rightarrow>
          (let start = arange s num_values in
           if s < 0 then assign_head (nat (- s)) 0 start
           else if s > 0 then assign_tail (nat s) (int num_values) start
           else start))"

definition window_end :: "int option \<Rightarrow> nat \<Rightarrow> error + int list" where
  "window_end self_end num_values =
     (case self_end of
        None \<Rightarrow> Inr (replicate num_values (int num_values))
      | Some e \<Rightarrow>
          (let end = arange (e + 1) num_values in
           if e > 0 then Inr (assign_tail (nat e) (int num_values) end)
           else if e < 0 then Inr (assign_head (nat (- e)) 0 end)
           else Inl AssertionError))"

definition get_window_bounds :: "Indexer \<Rightarrow> nat \<Rightarrow> error + (int list \<times> int list)" where
  "get_window_bounds self num_values =
     (let start = window_start (idx_start self) num_values in
      case window_end (idx_end self) num_values of
        Inl err \<Rightarrow> Inl err
      | Inr end \<Rightarrow> Inr (start, end))"

subsection \<open>The window chosen by \<^verbatim>\<open>map_on_each_group\<close>\<close>

text \<open>
  The three window objects \<^verbatim>\<open>map_on_each_group\<close> builds (lines 169-188):
  \<^verbatim>\<open>expanding(min_periods=0)\<close>, \<^verbatim>\<open>rolling(window=w, min_periods=0)\<close> with an integer
  width, and \<^verbatim>\<open>rolling(window=indexer, min_periods=0)\<close> with an \<^verbatim>\<open>Indexer\<close>.
\<close>

datatype window = Expanding | Rolling int | RollingIndexer Indexer

text \<open>
  Lines 180-187: the signed offsets of the general branch. A current-row bound counts
  as offset 0, a preceding bound negates its offset, an unbounded bound has none.
\<close>

definition general_indexer :: "BoundDescription \<Rightarrow> BoundDescription \<Rightarrow> Indexer" where
  "general_indexer lower_bound upper_bound =
     (let lower_offset = (if \<not> is_current_row lower_bound then offset lower_bound else Some 0);
          lower_offset = (if is_preceding lower_bound \<and> lower_offset \<noteq> None
                          then map_option (\<lambda>x. x * (- 1)) lower_offset else lower_offset);
          upper_offset = (if \<not> is_current_row upper_bound then offset upper_bound else Some 0);
          upper_offset = (if is_preceding upper_bound \<and> upper_offset \<noteq> None
                          then map_option (\<lambda>x. x * (- 1)) upper_offset else upper_offset)
      in \<lparr>idx_start = lower_offset, idx_end = upper_offset\<rparr>)"

text \<open>
  Lines 169-188. In the second branch \<^verbatim>\<open>lower_bound.offset + 1\<close> raises
  \<^verbatim>\<open>TypeError\<close> when the offset is \<^verbatim>\<open>None\<close>, and pandas refuses a negative window
  width with \<^verbatim>\<open>ValueError\<close>.
\<close>

definition make_window :: "BoundDescription \<Rightarrow> BoundDescription \<Rightarrow> error + window" where
  "make_window lower_bound upper_bound =
     (if is_unbounded lower_bound
         \<and> (is_current_row upper_bound \<or> offset upper_bound = Some 0)
      then Inr Expanding
      else if is_preceding lower_bound
         \<and> (is_current_row upper_bound \<or> offset upper_bound = Some 0)
      then (case offset lower_bound of
              None \<Rightarrow> Inl TypeError
            | Some k \<Rightarrow> if k + 1 < 0 then Inl ValueError else Inr (Rolling (k + 1)))
      else Inr (RollingIndexer (general_indexer lower_bound upper_bound)))"

text \<open>
  Modelled from the spec: the frames of the two pandas windows, which are library code
  and not part of the repository. Section 4.2 gives them: the expanding window has
  \<open>start_i = 0\<close>, \<open>end_i = i + 1\<close>; the rolling window of width \<open>w\<close> (that is
  \<open>lower.offset + 1\<close>) has \<open>start_i = max(0, i - (w - 1))\<close>, \<open>end_i = i + 1\<close>.
\<close>

definition expanding_bounds :: "nat \<Rightarrow> int list \<times> int list" where
  "expanding_bounds n = (replicate n 0, map (\<lambda>i. int i + 1) [0..<n])"

definition rolling_bounds :: "int \<Rightarrow> nat \<Rightarrow> int list \<times> int list" where
  "rolling_bounds w n =
     (map (\<lambda>i. max 0 (int i - (w - 1))) [0..<n], map (\<lambda>i. int i + 1) [0..<n])"

text \<open>The frames \<open>(start, end)\<close> of a window over a partition of \<open>n\<close> rows.\<close>

definition window_bounds :: "window \<Rightarrow> nat \<Rightarrow> error + (int list \<times> int list)" where
  "window_bounds w n =
     (case w of
        Expanding \<Rightarrow> Inr (expanding_bounds n)
      | Rolling width \<Rightarrow> Inr (rolling_bounds width n)
      | RollingIndexer indexer \<Rightarrow> get_window_bounds indexer n)"

text \<open>The frame indexer as a whole: choose the window, then compute its frames.\<close>

definition frame_bounds ::
  "BoundDescription \<Rightarrow> BoundDescription \<Rightarrow> nat \<Rightarrow> error + (int list \<times> int list)" where
  "frame_bounds lower_bound upper_bound n =
     (case make_window lower_bound upper_bound of
        Inl err \<Rightarrow> Inl err
      | Inr w \<Rightarrow> window_bounds w n)"

text \<open>Bound descriptions used as concrete inputs below.\<close>

definition unbounded_preceding :: BoundDescription where
  "unbounded_preceding = \<lparr>is_unbounded = True, is_preceding = True, is_following = False,
     is_current_row = False, offset = None\<rparr>"

definition unbounded_following :: BoundDescription where
  "unbounded_following = \<lparr>is_unbounded = True, is_preceding = False, is_following = True,
     is_current_row = False, offset = None\<rparr>"

definition current_row :: BoundDescription where
  "current_row = \<lparr>is_unbounded = False, is_preceding = False, is_following = False,
     is_current_row = True, offset = None\<rparr>"

definition preceding :: "int \<Rightarrow> BoundDescription" where
  "preceding k = \<lparr>is_unbounded = False, is_preceding = True, is_following = False,
     is_current_row = False, offset = Some k\<rparr>"

definition following :: "int \<Rightarrow> BoundDescription" where
  "following k = \<lparr>is_unbounded = False, is_preceding = False, is_following = True,
     is_current_row = False, offset = Some k\<rparr>"

text \<open>
  The signed offsets of the general branch are ordered when the lower one is at most
  the upper one plus one, or when one of them is absent (an unbounded side).
\<close>

definition offsets_ordered :: "BoundDescription \<Rightarrow> BoundDescription \<Rightarrow> bool" where
  "offsets_ordered lower_bound upper_bound =
     (let indexer = general_indexer lower_bound upper_bound in
      case (idx_start indexer, idx_end indexer) of
        (Some s, Some e) \<Rightarrow> s \<le> e + 1
      | _ \<Rightarrow> True)"

section \<open>Bound resolution\<close>

text \<open>
  The Calcite expression nodes as far as \<^verbatim>\<open>to_bound_description\<close> tells them apart:
  a \<^verbatim>\<open>RexInputRef\<close> with its index, a \<^verbatim>\<open>RexLiteral\<close> holding an integer, and any
  other node.
\<close>

datatype rex = RexInputRef int | RexLiteral int | RexCall string

text \<open>
  The Java object \<^verbatim>\<open>RexWindowBound\<close>, by the five methods the function calls on it.
\<close>

record RexWindowBound =
  getOffset :: "rex option"
  isUnbounded :: bool
  isPreceding :: bool
  isFollowing :: bool
  isCurrentRow :: bool

text \<open>
  \<^verbatim>\<open>constants[index]\<close> on a Python list: a negative index counts from the end of the
  list, and an index outside \<open>[-len, len)\<close> raises \<^verbatim>\<open>IndexError\<close>.
\<close>

definition list_getitem :: "'a list \<Rightarrow> int \<Rightarrow> error + 'a" where
  "list_getitem xs index =
     (if 0 \<le> index \<and> index < int (length xs) then Inr (xs ! nat index)
      else if index < 0 \<and> - int (length xs) \<le> index
      then Inr (xs ! nat (int (length xs) + index))
      else Inl IndexError)"

text \<open>
  \<^verbatim>\<open>to_bound_description\<close> (lines 81-110). The conversion
  \<^verbatim>\<open>int(RexLiteralPlugin().convert(offset, None, None))\<close> of line 100 is code of another
  module; it is the parameter \<open>convert\<close>, which returns the integer or the error it
  raises.
\<close>

definition to_bound_description ::
  "(rex \<Rightarrow> error + int) \<Rightarrow> RexWindowBound \<Rightarrow> rex list \<Rightarrow> int
     \<Rightarrow> error + BoundDescription" where
  "to_bound_description convert java_window constants constant_count_offset =
     (let resolved =
        (case getOffset java_window of
           None \<Rightarrow> Inr None
         | Some node \<Rightarrow>
             (case (case node of
                      RexInputRef index \<Rightarrow>
                        list_getitem constants (index - constant_count_offset)
                    | _ \<Rightarrow> Inr node) of
                Inl err \<Rightarrow> Inl err
              | Inr literal \<Rightarrow>
                  (case convert literal of
                     Inl err \<Rightarrow> Inl err
                   | Inr v \<Rightarrow> Inr (Some v))))
      in case resolved of
           Inl err \<Rightarrow> Inl err
         | Inr resolved_offset \<Rightarrow>
             Inr \<lparr>is_unbounded = isUnbounded java_window,
                  is_preceding = isPreceding java_window,
                  is_following = isFollowing java_window,
                  is_current_row = isCurrentRow java_window,
                  offset = resolved_offset\<rparr>)"

text \<open>
  Modelled from the spec: the literal converter \<^verbatim>\<open>RexLiteralPlugin.convert\<close> is not
  among the sources. Section 4.1 only says that a literal offset is materialised as
  its plain integer; here every other node is refused. It is used for the concrete
  evaluations below, the theorems hold for every converter.
\<close>

definition literal_to_int :: "rex \<Rightarrow> error + int" where
  "literal_to_int r = (case r of RexLiteral v \<Rightarrow> Inr v | _ \<Rightarrow> Inl ConvertError)"

section \<open>Tables\<close>

text \<open>
  A cell of a table is null or an integer. A row maps the column names to cells, in
  the order of the columns; a data frame is the list of its column names and the list
  of its rows.
\<close>

datatype cell = Null | IntV int

type_synonym row = "(string \<times> cell) list"

record dataframe =
  columns :: "string list"
  rows :: "row list"

definition wf_dataframe :: "dataframe \<Rightarrow> bool" where
  "wf_dataframe df =
     (distinct (columns df) \<and> list_all (\<lambda>r. map fst r = columns df) (rows df))"

definition cell_at :: "row \<Rightarrow> string \<Rightarrow> cell" where
  "cell_at r c = (case map_of r c of None \<Rightarrow> Null | Some v \<Rightarrow> v)"

text \<open>\<^verbatim>\<open>df[c]\<close>: the column, or \<^verbatim>\<open>KeyError\<close>.\<close>

definition get_column :: "dataframe \<Rightarrow> string \<Rightarrow> error + cell list" where
  "get_column df c =
     (if c \<in> set (columns df) then Inr (map (\<lambda>r. cell_at r c) (rows df))
      else Inl KeyError)"

text \<open>
  \<^verbatim>\<open>df.assign(**{c: vs})\<close> for one column: an existing column is overwritten in
  place, a new one is appended; values of another length than the frame raise
  \<^verbatim>\<open>ValueError\<close>.
\<close>

definition assign_column :: "string \<Rightarrow> cell list \<Rightarrow> dataframe \<Rightarrow> error + dataframe" where
  "assign_column c vs df =
     (if length vs \<noteq> length (rows df) then Inl ValueError
      else Inr \<lparr>columns = (if c \<in> set (columns df) then columns df else columns df @ [c]),
                rows = map (\<lambda>(r, v). AList.update c v r) (zip (rows df) vs)\<rparr>)"

text \<open>\<^verbatim>\<open>df.assign(**kwargs)\<close>: the columns are assigned in the order of the dict.\<close>

fun assign :: "(string \<times> cell list) list \<Rightarrow> dataframe \<Rightarrow> error + dataframe" where
  "assign [] df = Inr df"
| "assign ((c, vs) # kwargs) df =
     (case assign_column c vs df of
        Inl err \<Rightarrow> Inl err
      | Inr df' \<Rightarrow> assign kwargs df')"

text \<open>\<^verbatim>\<open>df.drop(columns=cs)\<close>: \<^verbatim>\<open>KeyError\<close> when a name is not a column.\<close>

definition drop_columns :: "string list \<Rightarrow> dataframe \<Rightarrow> error + dataframe" where
  "drop_columns cs df =
     (if \<not> set cs \<subseteq> set (columns df) then Inl KeyError
      else Inr \<lparr>columns = filter (\<lambda>c. c \<notin> set cs) (columns df),
                rows = map (filter (\<lambda>(c, v). c \<notin> set cs)) (rows df)\<rparr>)"

text \<open>The first error of a list of results, or all the values.\<close>

fun collect :: "(error + 'a) list \<Rightarrow> error + 'a list" where
  "collect [] = Inr []"
| "collect (Inl err # rs) = Inl err"
| "collect (Inr x # rs) = (case collect rs of Inl err \<Rightarrow> Inl err | Inr xs \<Rightarrow> Inr (x # xs))"

section \<open>The window operations\<close>

text \<open>
  The rows \<open>[s, e)\<close> of a column: the data a window operation sees for one frame.
\<close>

definition frame_rows :: "cell list \<Rightarrow> int \<Rightarrow> int \<Rightarrow> cell list" where
  "frame_rows vs s e = take (nat (e - s)) (drop (nat s) vs)"

text \<open>
  Modelled from the spec: the pandas aggregations over one frame, which are library
  code. The table of section 4.3 gives them: the sum and the count skip nulls and
  are 0 on a frame without values; the maximum and minimum skip nulls and are null
  on a frame without values; the first and last value are the operand of the first
  and last row of the frame, and \<^verbatim>\<open>x.iloc[0]\<close>, \<^verbatim>\<open>x.iloc[-1]\<close> raise \<^verbatim>\<open>IndexError\<close> on
  an empty frame.
\<close>

definition non_null :: "cell list \<Rightarrow> int list" where
  "non_null xs = concat (map (\<lambda>x. case x of Null \<Rightarrow> [] | IntV v \<Rightarrow> [v]) xs)"

definition sum_frame :: "cell list \<Rightarrow> error + cell" where
  "sum_frame xs = Inr (IntV (sum_list (non_null xs)))"

definition count_frame :: "cell list \<Rightarrow> error + cell" where
  "count_frame xs = Inr (IntV (int (length (non_null xs))))"

definition max_frame :: "cell list \<Rightarrow> error + cell" where
  "max_frame xs = (case non_null xs of [] \<Rightarrow> Inr Null | v # vs \<Rightarrow> Inr (IntV (fold max vs v)))"

definition min_frame :: "cell list \<Rightarrow> error + cell" where
  "min_frame xs = (case non_null xs of [] \<Rightarrow> Inr Null | v # vs \<Rightarrow> Inr (IntV (fold min vs v)))"

definition first_frame :: "cell list \<Rightarrow> error + cell" where
  "first_frame xs = (case xs of [] \<Rightarrow> Inl IndexError | x # _ \<Rightarrow> Inr x)"

definition last_frame :: "cell list \<Rightarrow> error + cell" where
  "last_frame xs = (if xs = [] then Inl IndexError else Inr (last xs))"

text \<open>
  An aggregation over a windowed column: the frames are computed for the length of
  the column, then the aggregation is applied to the rows of each frame.
\<close>

definition over_frames ::
  "(cell list \<Rightarrow> error + cell) \<Rightarrow> window \<Rightarrow> cell list \<Rightarrow> error + cell list" where
  "over_frames agg w vs =
     (case window_bounds w (length vs) of
        Inl err \<Rightarrow> Inl err
      | Inr (start, end) \<Rightarrow>
          collect (map (\<lambda>(s, e). agg (frame_rows vs s e)) (zip start end)))"

text \<open>
  The operation classes (lines 28-64), and a user-defined function of the context,
  which is called like them with the windowed group and the operand columns.
\<close>

datatype operation =
    FirstValueOperation
  | LastValueOperation
  | SumOperation
  | CountOperation
  | MaxOperation
  | MinOperation
  | UserFunction "window \<times> dataframe \<Rightarrow> string list \<Rightarrow> error + cell list"

text \<open>\<^verbatim>\<open>partitioned_group[value_col]\<close> followed by an aggregation.\<close>

definition on_column ::
  "(cell list \<Rightarrow> error + cell) \<Rightarrow> window \<times> dataframe \<Rightarrow> string \<Rightarrow> error + cell list" where
  "on_column agg partitioned_group value_col =
     (case get_column (snd partitioned_group) value_col of
        Inl err \<Rightarrow> Inl err
      | Inr vs \<Rightarrow> over_frames agg (fst partitioned_group) vs)"

text \<open>
  \<^verbatim>\<open>OverOperation.__call__\<close> (lines 29-31) with the \<^verbatim>\<open>call\<close> methods of the classes.
  A number of operands the method does not take raises \<^verbatim>\<open>TypeError\<close>; the count
  without operand takes the first column of the frame (\<^verbatim>\<open>.iloc[:, 0]\<close>).
\<close>

fun call :: "operation \<Rightarrow> window \<times> dataframe \<Rightarrow> string list \<Rightarrow> error + cell list" where
  "call FirstValueOperation partitioned_group [value_col] =
     on_column first_frame partitioned_group value_col"
| "call LastValueOperation partitioned_group [value_col] =
     on_column last_frame partitioned_group value_col"
| "call SumOperation partitioned_group [value_col] =
     on_column sum_frame partitioned_group value_col"
| "call CountOperation partitioned_group [] =
     (case columns (snd partitioned_group) of
        [] \<Rightarrow> Inl IndexError
      | first_col # _ \<Rightarrow> on_column count_frame partitioned_group first_col)"
| "call CountOperation partitioned_group [value_col] =
     on_column count_frame partitioned_group value_col"
| "call MaxOperation partitioned_group [value_col] =
     on_column max_frame partitioned_group value_col"
| "call MinOperation partitioned_group [value_col] =
     on_column min_frame partitioned_group value_col"
| "call (UserFunction f) partitioned_group args = f partitioned_group args"
| "call _ partitioned_group args = Inl TypeError"

section \<open>The function mapped on each group\<close>

text \<open>
  An entry of the list \<^verbatim>\<open>operations\<close>: the operation (\<^verbatim>\<open>None\<close> for the row number),
  the name of the new column, and the names of the operand columns.
\<close>

type_synonym operation_entry = "operation option \<times> string \<times> string list"

text \<open>
  Lines 191-200: the loop over the operations. The results are collected in the
  dict \<^verbatim>\<open>new_columns\<close>, where a name that is already a key keeps its position and
  takes the new result.
\<close>

fun calculate_results ::
  "window \<times> dataframe \<Rightarrow> operation_entry list \<Rightarrow> (string \<times> cell list) list
     \<Rightarrow> error + (string \<times> cell list) list" where
  "calculate_results windowed_group [] new_columns = Inr new_columns"
| "calculate_results windowed_group ((f, new_column_name, temporary_operand_columns) # operations)
       new_columns =
     (case (case f of
              None \<Rightarrow>
                Inr (map (\<lambda>i. IntV (int i)) [1..<length (rows (snd windowed_group)) + 1])
            | Some g \<Rightarrow> call g windowed_group temporary_operand_columns) of
        Inl err \<Rightarrow> Inl err
      | Inr column_result \<Rightarrow>
          calculate_results windowed_group operations
            (AList.update new_column_name column_result new_columns))"

text \<open>
  \<^verbatim>\<open>map_on_each_group\<close> (lines 152-204). The sorting function
  \<^verbatim>\<open>sort_partition_func\<close> is code of another module and is a parameter.
\<close>

definition map_on_each_group ::
  "(dataframe \<Rightarrow> string list \<Rightarrow> bool list \<Rightarrow> bool list \<Rightarrow> dataframe)
     \<Rightarrow> dataframe \<Rightarrow> string list \<Rightarrow> bool list \<Rightarrow> bool list
     \<Rightarrow> BoundDescription \<Rightarrow> BoundDescription \<Rightarrow> operation_entry list
     \<Rightarrow> error + dataframe" where
  "map_on_each_group sort_partition_func partitioned_group sort_columns sort_ascending
       sort_null_first lower_bound upper_bound operations =
     (let partitioned_group =
            (if sort_columns \<noteq> []
             then sort_partition_func partitioned_group sort_columns sort_ascending
                    sort_null_first
             else partitioned_group)
      in case make_window lower_bound upper_bound of
           Inl err \<Rightarrow> Inl err
         | Inr windowed \<Rightarrow>
             (case calculate_results (windowed, partitioned_group) operations [] of
                Inl err \<Rightarrow> Inl err
              | Inr new_columns \<Rightarrow> assign new_columns partitioned_group))"

text \<open>A table with the single column \<open>x\<close>, for the concrete evaluations.\<close>

definition single_column :: "string \<Rightarrow> int list \<Rightarrow> dataframe" where
  "single_column c vs = \<lparr>columns = [c], rows = map (\<lambda>v. [(c, IntV v)]) vs\<rparr>"

section \<open>The window plan driver\<close>

subsection \<open>Data containers\<close>

text \<open>
  Modelled from the spec: \<^verbatim>\<open>ColumnContainer\<close> and \<^verbatim>\<open>DataContainer\<close> are classes of
  another module. By section 6 the output columns carry the field names of the target
  row type; the container keeps the list of these (frontend) names and the backend
  column of the frame each one stands for.
\<close>

record ColumnContainer =
  frontend_columns :: "string list"
  frontend_backend_mapping :: "(string \<times> string) list"

record DataContainer =
  dc_df :: dataframe
  dc_column_container :: ColumnContainer

definition get_backend_by_frontend_index :: "ColumnContainer \<Rightarrow> int \<Rightarrow> error + string" where
  "get_backend_by_frontend_index cc index =
     (case list_getitem (frontend_columns cc) index of
        Inl err \<Rightarrow> Inl err
      | Inr frontend_column \<Rightarrow>
          (case map_of (frontend_backend_mapping cc) frontend_column of
             None \<Rightarrow> Inl KeyError
           | Some backend_column \<Rightarrow> Inr backend_column))"

definition cc_add :: "ColumnContainer \<Rightarrow> string \<Rightarrow> string \<Rightarrow> ColumnContainer" where
  "cc_add cc frontend_column backend_column =
     \<lparr>frontend_columns = frontend_columns cc @ [frontend_column],
      frontend_backend_mapping =
        AList.update frontend_column backend_column (frontend_backend_mapping cc)\<rparr>"

subsection \<open>The window group of the plan\<close>

text \<open>
  The Calcite objects read by the driver: an aggregate call by the name of its
  operator and its operands; a field collation by its field index and the two
  comparisons of lines 381-382; a window group by its partition keys, order keys,
  bounds and aggregate calls.
\<close>

record AggregateCall =
  getOperatorName :: string
  getOperands :: "rex list"

record FieldCollation =
  getFieldIndex :: int
  direction_is_ascending :: bool
  null_direction_is_first :: bool

record WindowGroup =
  keys :: "int list"
  orderKeys :: "FieldCollation list"
  lowerBound :: RexWindowBound
  upperBound :: RexWindowBound
  aggCalls :: "AggregateCall list"

subsection \<open>Code of other modules\<close>

text \<open>
  The functions of other modules the driver calls, as parameters:
  the integer conversion of a literal (line 100), \<^verbatim>\<open>RexConverter.convert\<close> on an
  operand (line 412), \<^verbatim>\<open>sort_partition_func\<close> (line 164) and
  \<^verbatim>\<open>get_groupby_with_nulls_cols\<close> (line 357).
\<close>

record externals =
  literal_convert :: "rex \<Rightarrow> error + int"
  rex_convert :: "rex \<Rightarrow> DataContainer \<Rightarrow> error + cell list"
  sort_partition_func :: "dataframe \<Rightarrow> string list \<Rightarrow> bool list \<Rightarrow> bool list \<Rightarrow> dataframe"
  get_groupby_with_nulls_cols :: "dataframe \<Rightarrow> cell list list \<Rightarrow> cell list list"

text \<open>
  Modelled from the spec: \<^verbatim>\<open>new_temporary_column\<close> is a function of another module.
  It yields the name of a synthetic helper column that is not a column of the frame, by
  drawing random names until one is new. The random draws are the explicit list
  \<open>uuids\<close>; the result is the name and the draws left, and \<open>None\<close> when the draws are
  used up.
\<close>

fun new_temporary_column :: "dataframe \<Rightarrow> string list \<Rightarrow> (string \<times> string list) option" where
  "new_temporary_column df [] = None"
| "new_temporary_column df (col_name # uuids) =
     (if col_name \<notin> set (columns df) then Some (col_name, uuids)
      else new_temporary_column df uuids)"

text \<open>
  \<^verbatim>\<open>str.lower\<close> on the letters A to Z; the operator names are ASCII.
\<close>

definition char_lower :: "char \<Rightarrow> char" where
  "char_lower c =
     (case map_of (zip ''ABCDEFGHIJKLMNOPQRSTUVWXYZ'' ''abcdefghijklmnopqrstuvwxyz'') c of
        None \<Rightarrow> c
      | Some l \<Rightarrow> l)"

definition lower :: "string \<Rightarrow> string" where
  "lower s = map char_lower s"

subsection \<open>Extraction of the ordering, the grouping and the operations\<close>

text \<open>\<^verbatim>\<open>_extract_ordering\<close> (lines 369-384).\<close>

definition extract_ordering ::
  "WindowGroup \<Rightarrow> ColumnContainer \<Rightarrow> error + (string list \<times> bool list \<times> bool list)" where
  "extract_ordering window cc =
     (let order_keys = orderKeys window;
          sort_columns_indices = map getFieldIndex order_keys
      in case collect (map (get_backend_by_frontend_index cc) sort_columns_indices) of
           Inl err \<Rightarrow> Inl err
         | Inr sort_columns \<Rightarrow>
             Inr (sort_columns,
                  map direction_is_ascending order_keys,
                  map null_direction_is_first order_keys))"

text \<open>
  The dict comprehension of lines 358-360: one new name per grouping column, all
  drawn against the same frame.
\<close>

fun name_group_columns ::
  "dataframe \<Rightarrow> cell list list \<Rightarrow> string list \<Rightarrow> (string \<times> cell list) list
     \<Rightarrow> error + ((string \<times> cell list) list \<times> string list)" where
  "name_group_columns df [] uuids named = Inr (named, uuids)"
| "name_group_columns df (group_col # group_columns) uuids named =
     (case new_temporary_column df uuids of
        None \<Rightarrow> Inl OutOfNames
      | Some (name, uuids') \<Rightarrow>
          name_group_columns df group_columns uuids' (AList.update name group_col named))"

text \<open>
  \<^verbatim>\<open>_extract_groupby\<close> (lines 343-367). Without partition keys the single grouping
  column is the constant 1.
\<close>

definition extract_groupby ::
  "externals \<Rightarrow> dataframe \<Rightarrow> WindowGroup \<Rightarrow> DataContainer \<Rightarrow> string list
     \<Rightarrow> error + (dataframe \<times> string list \<times> string list)" where
  "extract_groupby ext df window dc uuids =
     (let partition_keys = keys window;
          named =
            (if partition_keys \<noteq> []
             then (case collect (map (\<lambda>key.
                           case get_backend_by_frontend_index (dc_column_container dc) key of
                             Inl err \<Rightarrow> Inl err
                           | Inr backend \<Rightarrow> get_column df backend) partition_keys) of
                     Inl err \<Rightarrow> Inl err
                   | Inr group_columns \<Rightarrow>
                       name_group_columns df
                         (get_groupby_with_nulls_cols ext df group_columns) uuids [])
             else (case new_temporary_column df uuids of
                     None \<Rightarrow> Inl OutOfNames
                   | Some (name, uuids') \<Rightarrow>
                       Inr ([(name, replicate (length (rows df)) (IntV 1))], uuids')))
      in case named of
           Inl err \<Rightarrow> Inl err
         | Inr (group_columns, uuids') \<Rightarrow>
             (case assign group_columns df of
                Inl err \<Rightarrow> Inl err
              | Inr df' \<Rightarrow> Inr (df', map fst group_columns, uuids')))"

text \<open>
  The registry \<^verbatim>\<open>OPERATION_MAPPING\<close> (lines 220-231).
\<close>

definition OPERATION_MAPPING :: "(string \<times> operation option) list" where
  "OPERATION_MAPPING =
     [(''row_number'', None),
      (''$sum0'', Some SumOperation),
      (''sum'', Some SumOperation),
      (''count'', Some CountOperation),
      (''max'', Some MaxOperation),
      (''min'', Some MinOperation),
      (''single_value'', Some FirstValueOperation),
      (''first_value'', Some FirstValueOperation),
      (''last_value'', Some LastValueOperation)]"

text \<open>
  Lines 400-406: the lookup in the registry, then in the functions of the context.
\<close>

definition lookup_operation ::
  "(string \<rightharpoonup> operation) \<Rightarrow> string \<Rightarrow> error + operation option" where
  "lookup_operation functions operator_name =
     (case map_of OPERATION_MAPPING operator_name of
        Some operation \<Rightarrow> Inr operation
      | None \<Rightarrow>
          (case functions operator_name of
             Some operation \<Rightarrow> Inr (Some operation)
           | None \<Rightarrow> Inl NotImplementedError))"

text \<open>
  The dict comprehension of lines 411-414: for every operand a new name, drawn
  against the same frame, and the converted operand.
\<close>

fun name_operand_columns ::
  "externals \<Rightarrow> DataContainer \<Rightarrow> dataframe \<Rightarrow> rex list \<Rightarrow> string list
     \<Rightarrow> (string \<times> cell list) list
     \<Rightarrow> error + ((string \<times> cell list) list \<times> string list)" where
  "name_operand_columns ext dc df [] uuids named = Inr (named, uuids)"
| "name_operand_columns ext dc df (operand # operands) uuids named =
     (case new_temporary_column df uuids of
        None \<Rightarrow> Inl OutOfNames
      | Some (name, uuids') \<Rightarrow>
          (case rex_convert ext operand dc of
             Inl err \<Rightarrow> Inl err
           | Inr operand_column \<Rightarrow>
               name_operand_columns ext dc df operands uuids'
                 (AList.update name operand_column named)))"

text \<open>
  \<^verbatim>\<open>_extract_operations\<close> (lines 386-422): the loop over the aggregate calls, with
  the list \<^verbatim>\<open>operations\<close> built so far, the frame and the draws.
\<close>

fun extract_operations ::
  "externals \<Rightarrow> (string \<rightharpoonup> operation) \<Rightarrow> DataContainer \<Rightarrow> AggregateCall list
     \<Rightarrow> dataframe \<Rightarrow> string list \<Rightarrow> operation_entry list
     \<Rightarrow> error + (operation_entry list \<times> dataframe \<times> string list)" where
  "extract_operations ext functions dc [] df uuids operations = Inr (operations, df, uuids)"
| "extract_operations ext functions dc (agg_call # agg_calls) df uuids operations =
     (let operator_name = lower (getOperatorName agg_call)
      in case lookup_operation functions operator_name of
           Inl err \<Rightarrow> Inl err
         | Inr operation \<Rightarrow>
             (case name_operand_columns ext dc df (getOperands agg_call) uuids [] of
                Inl err \<Rightarrow> Inl err
              | Inr (temporary_operand_columns, uuids1) \<Rightarrow>
                  (case assign temporary_operand_columns df of
                     Inl err \<Rightarrow> Inl err
                   | Inr df1 \<Rightarrow>
                       (case new_temporary_column df1 uuids1 of
                          None \<Rightarrow> Inl OutOfNames
                        | Some (new_column, uuids2) \<Rightarrow>
                            extract_operations ext functions dc agg_calls df1 uuids2
                              (operations @
                                 [(operation, new_column,
                                   map fst temporary_operand_columns)])))))"

subsection \<open>Grouping\<close>

text \<open>
  The library call \<^verbatim>\<open>df.groupby(group_columns).apply(f, meta=meta)\<close> of line 320:
  rows with a null in a grouping column belong to no group; the other rows are split
  into the groups of equal grouping cells, the function is applied to each group,
  and the results are concatenated under the columns of \<^verbatim>\<open>meta\<close>.
\<close>

definition group_key :: "string list \<Rightarrow> row \<Rightarrow> cell list" where
  "group_key group_columns r = map (cell_at r) group_columns"

function group_rows :: "string list \<Rightarrow> row list \<Rightarrow> row list list" where
  "group_rows group_columns [] = []"
| "group_rows group_columns (r # rs) =
     (r # filter (\<lambda>x. group_key group_columns x = group_key group_columns r) rs)
     # group_rows group_columns
         (filter (\<lambda>x. group_key group_columns x \<noteq> group_key group_columns r) rs)"
  by pat_completeness auto
termination
  by (relation "measure (\<lambda>(group_columns, rs). length rs)") (auto simp: less_Suc_eq_le)

definition groupby_apply ::
  "string list \<Rightarrow> (dataframe \<Rightarrow> error + dataframe) \<Rightarrow> string list \<Rightarrow> dataframe
     \<Rightarrow> error + dataframe" where
  "groupby_apply group_columns f meta_columns df =
     (if \<not> set group_columns \<subseteq> set (columns df) then Inl KeyError
      else
        let grouped = filter (\<lambda>r. Null \<notin> set (group_key group_columns r)) (rows df);
            parts = map (\<lambda>g. f \<lparr>columns = columns df, rows = g\<rparr>)
                      (group_rows group_columns grouped)
        in case collect parts of
             Inl err \<Rightarrow> Inl err
           | Inr frames \<Rightarrow> Inr \<lparr>columns = meta_columns, rows = concat (map rows frames)\<rparr>)"

subsection \<open>Applying one window group\<close>

text \<open>Lines 332-335: the new columns get the next field names of the row type.\<close>

fun add_fields :: "string list \<Rightarrow> ColumnContainer \<Rightarrow> string list \<Rightarrow> error + ColumnContainer" where
  "add_fields field_names cc [] = Inr cc"
| "add_fields field_names cc (c # newly_created_columns) =
     (case list_getitem field_names (int (length (frontend_columns cc))) of
        Inl err \<Rightarrow> Inl err
      | Inr field_name \<Rightarrow> add_fields field_names (cc_add cc field_name c) newly_created_columns)"

text \<open>
  \<^verbatim>\<open>_apply_window\<close> (lines 265-341). The columns of \<^verbatim>\<open>meta\<close> (line 318) are those of
  the frame with the new columns assigned.
\<close>

definition apply_window ::
  "externals \<Rightarrow> (string \<rightharpoonup> operation) \<Rightarrow> WindowGroup \<Rightarrow> rex list \<Rightarrow> int \<Rightarrow> DataContainer
     \<Rightarrow> string list \<Rightarrow> string list \<Rightarrow> error + DataContainer" where
  "apply_window ext functions window constants constant_count_offset dc field_names uuids =
     (let df = dc_df dc; cc = dc_column_container dc
      in case extract_ordering window cc of
           Inl err \<Rightarrow> Inl err
         | Inr (sort_columns, sort_ascending, sort_null_first) \<Rightarrow>
      (case extract_groupby ext df window dc uuids of
           Inl err \<Rightarrow> Inl err
         | Inr (df, group_columns, uuids) \<Rightarrow>
      (case extract_operations ext functions dc (aggCalls window) df uuids [] of
           Inl err \<Rightarrow> Inl err
         | Inr (operations, df, uuids) \<Rightarrow>
      (let temporary_columns = group_columns @ concat (map (\<lambda>e. snd (snd e)) operations);
           newly_created_columns = map (\<lambda>e. fst (snd e)) operations
       in case to_bound_description (literal_convert ext) (lowerBound window) constants
                 constant_count_offset of
            Inl err \<Rightarrow> Inl err
          | Inr lower_bound \<Rightarrow>
      (case to_bound_description (literal_convert ext) (upperBound window) constants
                 constant_count_offset of
            Inl err \<Rightarrow> Inl err
          | Inr upper_bound \<Rightarrow>
      (let meta_columns =
             columns df @ filter (\<lambda>c. c \<notin> set (columns df)) (remdups newly_created_columns)
       in case groupby_apply group_columns
                 (\<lambda>partitioned_group.
                    map_on_each_group (sort_partition_func ext) partitioned_group
                      sort_columns sort_ascending sort_null_first lower_bound upper_bound
                      operations)
                 meta_columns df of
            Inl err \<Rightarrow> Inl err
          | Inr df \<Rightarrow>
      (case drop_columns temporary_columns df of
            Inl err \<Rightarrow> Inl err
          | Inr df \<Rightarrow>
      (case add_fields field_names cc newly_created_columns of
            Inl err \<Rightarrow> Inl err
          | Inr cc \<Rightarrow> Inr \<lparr>dc_df = df, dc_column_container = cc\<rparr>))))))))"

subsection \<open>Instances of the parameters for the concrete evaluations\<close>

text \<open>
  Modelled from the spec: a sorting function as section 4.4 (a) asks for, stable, by
  the sort columns in their order, honouring the direction of each and putting the
  nulls where \<open>nulls_first\<close> says.
\<close>

definition sort_by_column :: "string \<Rightarrow> bool \<Rightarrow> bool \<Rightarrow> row list \<Rightarrow> row list" where
  "sort_by_column c ascending nulls_first rs =
     sort_key (\<lambda>r. if (cell_at r c = Null) = nulls_first then (0 :: nat) else 1)
       (sort_key (\<lambda>r. case cell_at r c of
                        Null \<Rightarrow> 0
                      | IntV v \<Rightarrow> if ascending then v else - v) rs)"

definition stable_sort_partition ::
  "dataframe \<Rightarrow> string list \<Rightarrow> bool list \<Rightarrow> bool list \<Rightarrow> dataframe" where
  "stable_sort_partition partition_df sort_columns sort_ascending sort_null_first =
     \<lparr>columns = columns partition_df,
      rows = foldr (\<lambda>(c, a, n) rs. sort_by_column c a n rs)
               (zip sort_columns (zip sort_ascending sort_null_first))
               (rows partition_df)\<rparr>"

text \<open>
  Modelled from the spec: an expression evaluator as section 6 describes it, which
  evaluates an operand to a column (a column reference to the column at that position
  of the frame, a literal to a constant column); and a null-free encoding of the
  grouping columns, two columns for each: whether the cell has a value, and the value
  or 0.
\<close>

definition column_operand :: "rex \<Rightarrow> DataContainer \<Rightarrow> error + cell list" where
  "column_operand operand dc =
     (case operand of
        RexInputRef index \<Rightarrow>
          (case get_backend_by_frontend_index (dc_column_container dc) index of
             Inl err \<Rightarrow> Inl err
           | Inr backend \<Rightarrow> get_column (dc_df dc) backend)
      | RexLiteral v \<Rightarrow> Inr (replicate (length (rows (dc_df dc))) (IntV v))
      | RexCall _ \<Rightarrow> Inl NotImplementedError)"

definition null_flags_and_values :: "dataframe \<Rightarrow> cell list list \<Rightarrow> cell list list" where
  "null_flags_and_values df group_columns =
     concat (map (\<lambda>col. [map (\<lambda>x. IntV (if x = Null then 0 else 1)) col,
                           map (\<lambda>x. if x = Null then IntV 0 else x) col]) group_columns)"

definition example_externals :: externals where
  "example_externals =
     \<lparr>literal_convert = literal_to_int,
      rex_convert = column_operand,
      sort_partition_func = stable_sort_partition,
      get_groupby_with_nulls_cols = null_flags_and_values\<rparr>"

subsection \<open>Names of the properties\<close>

text \<open>
  An aggregate call is known when the lookup of lines 400-406 finds its lower-cased
  operator name in \<^verbatim>\<open>OPERATION_MAPPING\<close> or in the functions of the context.
\<close>

definition operator_known :: "(string \<rightharpoonup> operation) \<Rightarrow> AggregateCall \<Rightarrow> bool" where
  "operator_known functions agg_call =
     (map_of OPERATION_MAPPING (lower (getOperatorName agg_call)) \<noteq> None
      \<or> functions (lower (getOperatorName agg_call)) \<noteq> None)"

text \<open>
  The number of names \<^verbatim>\<open>_extract_operations\<close> draws: one for each operand and one for
  each aggregate call.
\<close>

definition names_needed :: "AggregateCall list \<Rightarrow> nat" where
  "names_needed agg_calls = sum_list (map (\<lambda>c. length (getOperands c) + 1) agg_calls)"

text \<open>The cells of the rows of a frame in the columns \<open>cs\<close>.\<close>

definition cells_in :: "string list \<Rightarrow> dataframe \<Rightarrow> row list" where
  "cells_in cs df = map (filter (\<lambda>(c, v). c \<in> set cs)) (rows df)"

subsection \<open>A concrete table and window group\<close>

definition example_table :: dataframe where
  "example_table =
     \<lparr>columns = [''g'', ''x''],
      rows = [[(''g'', IntV 1), (''x'', IntV 3)],
              [(''g'', Null), (''x'', IntV 5)],
              [(''g'', IntV 1), (''x'', IntV 1)]]\<rparr>"

definition example_container :: DataContainer where
  "example_container =
     \<lparr>dc_df = example_table,
      dc_column_container =
        \<lparr>frontend_columns = [''g'', ''x''],
         frontend_backend_mapping = [(''g'', ''g''), (''x'', ''x'')]\<rparr>\<rparr>"

text \<open>
  \<^verbatim>\<open>PARTITION BY g ORDER BY x ROWS BETWEEN UNBOUNDED PRECEDING AND CURRENT ROW\<close>
  with the given aggregate calls.
\<close>

definition example_window :: "AggregateCall list \<Rightarrow> WindowGroup" where
  "example_window agg_calls =
     \<lparr>keys = [0],
      orderKeys = [\<lparr>getFieldIndex = 1, direction_is_ascending = True,
                    null_direction_is_first = True\<rparr>],
      lowerBound = \<lparr>getOffset = None, isUnbounded = True, isPreceding = True,
                     isFollowing = False, isCurrentRow = False\<rparr>,
      upperBound = \<lparr>getOffset = None, isUnbounded = False, isPreceding = False,
                     isFollowing = False, isCurrentRow = True\<rparr>,
      aggCalls = agg_calls\<rparr>"

section \<open>Properties of the frame indexer\<close>

subsection \<open>The numpy operations\<close>

lemma length_arange: "length (arange a n) = n"
  by (simp add: arange_def)

lemma nth_arange: "i < n \<Longrightarrow> arange a n ! i = a + int i"
  by (simp add: arange_def)

lemma length_assign_head: "length (assign_head k v arr) = length arr"
  by (simp add: assign_head_def)

lemma length_assign_tail: "length (assign_tail k v arr) = length arr"
  by (simp add: assign_tail_def)

lemma nth_assign_head:
  "i < length arr \<Longrightarrow> assign_head k v arr ! i = (if i < k then v else arr ! i)"
  by (auto simp add: assign_head_def nth_append)

lemma nth_assign_tail:
  "i < length arr \<Longrightarrow>
     assign_tail k v arr ! i = (if length arr - k \<le> i then v else arr ! i)"
  by (auto simp add: assign_tail_def nth_append intro!: nth_replicate)

subsection \<open>The indexer clamps the shifted row position\<close>

lemma length_window_start: "length (window_start s n) = n"
  by (auto simp: window_start_def Let_def length_arange length_assign_head
      length_assign_tail split: option.splits)

lemma nth_window_start_None: "i < n \<Longrightarrow> window_start None n ! i = 0"
  by (simp add: window_start_def)

lemma nth_window_start_Some:
  "i < n \<Longrightarrow> window_start (Some s) n ! i = max 0 (min (int n) (int i + s))"
  by (auto simp: window_start_def Let_def length_arange nth_arange nth_assign_head
      nth_assign_tail)

lemma window_end_None: "window_end None n = Inr (replicate n (int n))"
  by (simp add: window_end_def)

lemma window_end_zero: "window_end (Some 0) n = Inl AssertionError"
  by (simp add: window_end_def)

lemma window_end_Some:
  assumes "e \<noteq> 0"
  shows "\<exists>en. window_end (Some e) n = Inr en \<and> length en = n
    \<and> (\<forall>i<n. en ! i = max 0 (min (int n) (int i + e + 1)))"
proof -
  let ?en = "if e > 0 then assign_tail (nat e) (int n) (arange (e + 1) n)
             else assign_head (nat (- e)) 0 (arange (e + 1) n)"
  have 1: "window_end (Some e) n = Inr ?en"
    using assms by (auto simp: window_end_def Let_def)
  have 2: "length ?en = n"
    by (simp add: length_arange length_assign_head length_assign_tail)
  have 3: "\<forall>i<n. ?en ! i = max 0 (min (int n) (int i + e + 1))"
    using assms by (auto simp: length_arange nth_arange nth_assign_head nth_assign_tail)
  from 1 2 3 show ?thesis by blast
qed

lemma get_window_bounds_nth:
  assumes "get_window_bounds ix n = Inr (st, en)"
  shows "length st = n \<and> length en = n
     \<and> (\<forall>i<n. st ! i = (case idx_start ix of None \<Rightarrow> 0
                          | Some s \<Rightarrow> max 0 (min (int n) (int i + s)))
             \<and> en ! i = (case idx_end ix of None \<Rightarrow> int n
                          | Some e \<Rightarrow> max 0 (min (int n) (int i + e + 1))))"
proof -
  from assms have st: "st = window_start (idx_start ix) n"
    and en: "window_end (idx_end ix) n = Inr en"
    by (auto simp: get_window_bounds_def Let_def split: sum.splits)
  have a: "length st = n"
    by (simp add: st length_window_start)
  have b: "\<forall>i<n. st ! i = (case idx_start ix of None \<Rightarrow> 0
                          | Some s \<Rightarrow> max 0 (min (int n) (int i + s)))"
    by (auto simp: st nth_window_start_None nth_window_start_Some split: option.splits)
  have c: "length en = n \<and> (\<forall>i<n. en ! i = (case idx_end ix of None \<Rightarrow> int n
                          | Some e \<Rightarrow> max 0 (min (int n) (int i + e + 1))))"
  proof (cases "idx_end ix")
    case None
    with en show ?thesis by (auto simp: window_end_None)
  next
    case (Some e)
    with en have "e \<noteq> 0" by (auto simp: window_end_zero)
    then obtain en' where "window_end (Some e) n = Inr en'" "length en' = n"
      "\<forall>i<n. en' ! i = max 0 (min (int n) (int i + e + 1))"
      using window_end_Some[of e n] by blast
    with en Some show ?thesis by auto
  qed
  from a b c show ?thesis by blast
qed

lemma get_window_bounds_error:
  "get_window_bounds ix n = Inl err \<Longrightarrow> err = AssertionError \<and> idx_end ix = Some 0"
  by (auto simp: get_window_bounds_def window_end_def Let_def
      split: sum.splits option.splits if_splits)

lemma get_window_bounds_returns:
  "idx_end ix \<noteq> Some 0 \<Longrightarrow> \<exists>st en. get_window_bounds ix n = Inr (st, en)"
  by (cases "get_window_bounds ix n") (auto dest: get_window_bounds_error)

lemma general_upper_zero:
  "is_current_row upper_bound \<or> offset upper_bound = Some 0
     \<Longrightarrow> idx_end (general_indexer lower_bound upper_bound) = Some 0"
  by (auto simp: general_indexer_def Let_def)

subsection \<open>Fast paths against the general branch\<close>

text \<open>
  Claim C1, as the code has it. For a well-formed lower bound that is unbounded or
  preceding and an upper bound that is the current row or has offset 0,
  \<^verbatim>\<open>map_on_each_group\<close> takes a fast path for every partition length \<open>n\<close>: the frames are
  \<open>start_i = 0\<close> (unbounded) or \<open>start_i = max(0, i - k)\<close> (offset \<open>k\<close>), and \<open>end_i = i + 1\<close>.
  The indexer of the general branch, built from the same bounds, computes the same
  \<open>start\<close> sequence but then raises \<^verbatim>\<open>AssertionError\<close> on the upper offset 0, so it
  produces no \<open>(start, end)\<close> pair at all.
\<close>

theorem general_branch_rejects_fast_path_bounds:
  assumes "valid_bound lower_bound"
    and "is_unbounded lower_bound \<or> is_preceding lower_bound"
    and "is_current_row upper_bound \<or> offset upper_bound = Some 0"
  shows "frame_bounds lower_bound upper_bound n =
           Inr (map (\<lambda>i. case offset lower_bound of None \<Rightarrow> 0
                          | Some k \<Rightarrow> max 0 (int i - k)) [0..<n],
                map (\<lambda>i. int i + 1) [0..<n])
         \<and> window_start (idx_start (general_indexer lower_bound upper_bound)) n =
              map (\<lambda>i. case offset lower_bound of None \<Rightarrow> 0
                         | Some k \<Rightarrow> max 0 (int i - k)) [0..<n]
         \<and> get_window_bounds (general_indexer lower_bound upper_bound) n
              = Inl AssertionError"
proof -
  let ?ix = "general_indexer lower_bound upper_bound"
  let ?fast = "map (\<lambda>i. case offset lower_bound of None \<Rightarrow> 0
                         | Some k \<Rightarrow> max 0 (int i - k)) [0..<n]"
  have "idx_end ?ix = Some 0"
    using assms(3) by (rule general_upper_zero)
  then have err: "get_window_bounds ?ix n = Inl AssertionError"
    by (simp add: get_window_bounds_def window_end_zero)
  have fast: "frame_bounds lower_bound upper_bound n
                = Inr (?fast, map (\<lambda>i. int i + 1) [0..<n])"
  proof (cases "offset lower_bound")
    case None
    with assms(1) have "is_unbounded lower_bound"
      using assms(2) by (auto simp: valid_bound_def split: if_splits)
    with assms(3) have "make_window lower_bound upper_bound = Inr Expanding"
      by (simp add: make_window_def)
    with None show ?thesis
      by (simp add: frame_bounds_def window_bounds_def expanding_bounds_def
          map_replicate_const)
  next
    case (Some k)
    with assms(1) have "\<not> is_unbounded lower_bound" "0 \<le> k"
      by (auto simp: valid_bound_def)
    with assms(2,3) Some
    have "make_window lower_bound upper_bound = Inr (Rolling (k + 1))"
      by (simp add: make_window_def)
    with Some show ?thesis
      by (simp add: frame_bounds_def window_bounds_def rolling_bounds_def)
  qed
  have start: "window_start (idx_start ?ix) n = ?fast"
  proof (cases "offset lower_bound")
    case None
    with assms(1,2) have "idx_start ?ix = None"
      by (auto simp: general_indexer_def Let_def valid_bound_def split: if_splits)
    with None show ?thesis
      by (simp add: window_start_def map_replicate_const)
  next
    case (Some k)
    with assms(1,2) have "idx_start ?ix = Some (- k)" "0 \<le> k"
      by (auto simp: general_indexer_def Let_def valid_bound_def split: if_splits)
    with Some show ?thesis
      by (intro nth_equalityI) (auto simp: length_window_start nth_window_start_Some)
  qed
  from fast start err show ?thesis by blast
qed

text \<open>
  The theorem of C1 at \<^verbatim>\<open>ROWS BETWEEN 2 PRECEDING AND CURRENT ROW\<close> over five rows.
\<close>

theorem general_branch_rejects_fast_path_bounds_witness:
  "valid_bound (preceding 2) \<and> is_preceding (preceding 2) \<and> is_current_row current_row
   \<and> frame_bounds (preceding 2) current_row 5 = Inr ([0, 0, 0, 1, 2], [1, 2, 3, 4, 5])
   \<and> window_start (idx_start (general_indexer (preceding 2) current_row)) 5
        = [0, 0, 0, 1, 2]
   \<and> get_window_bounds (general_indexer (preceding 2) current_row) 5
        = Inl AssertionError"
proof -
  have v: "valid_bound (preceding 2)"
    by (simp add: valid_bound_def preceding_def)
  have l: "is_unbounded (preceding 2) \<or> is_preceding (preceding 2)"
    by (simp add: preceding_def)
  have u: "is_current_row current_row \<or> offset current_row = Some 0"
    by (simp add: current_row_def)
  have m: "map (\<lambda>i. case offset (preceding 2) of None \<Rightarrow> 0
                      | Some k \<Rightarrow> max 0 (int i - k)) [0..<5] = [0, 0, 0, 1, 2]"
    by (simp add: preceding_def upt_rec)
  have e: "map (\<lambda>i. int i + 1) [0..<5] = [1, 2, 3, 4, 5]"
    by (simp add: upt_rec)
  from general_branch_rejects_fast_path_bounds [OF v l u, of 5] v show ?thesis
    unfolding m e by (simp add: preceding_def current_row_def)
qed

text \<open>
  C1 as stated fails: for \<^verbatim>\<open>UNBOUNDED PRECEDING\<close> to \<^verbatim>\<open>CURRENT ROW\<close> the fast path
  yields the expanding frames, for \<open>n = 5\<close> and for \<open>n = 0\<close>, while the general branch's
  indexer raises \<^verbatim>\<open>AssertionError\<close> on the same bounds.
\<close>

theorem general_branch_raises_counterexample:
  "frame_bounds unbounded_preceding current_row 5
      = Inr ([0, 0, 0, 0, 0], [1, 2, 3, 4, 5])
   \<and> get_window_bounds (general_indexer unbounded_preceding current_row) 5
      = Inl AssertionError
   \<and> frame_bounds unbounded_preceding current_row 0 = Inr ([], [])
   \<and> get_window_bounds (general_indexer unbounded_preceding current_row) 0
      = Inl AssertionError"
  by (simp add: frame_bounds_def make_window_def window_bounds_def expanding_bounds_def
      get_window_bounds_def general_indexer_def window_end_def
      unbounded_preceding_def current_row_def upt_rec eval_nat_numeral)

subsection \<open>Range of the computed frames\<close>

text \<open>
  Claim C2, as the code has it. Whenever the frame indexer returns the sequences
  \<open>start\<close> and \<open>end\<close> for a partition of \<open>n\<close> rows, both have length \<open>n\<close> and every entry
  lies in \<open>[0, n]\<close>. The order \<open>start_i \<le> end_i\<close> holds for every row when the signed
  offsets are ordered (the lower one at most the upper one plus one, or one side
  unbounded); the indexer does not check it.
\<close>

theorem frame_bounds_within_partition:
  assumes "frame_bounds lower_bound upper_bound n = Inr (start, end)"
  shows "length start = n \<and> length end = n
     \<and> (\<forall>i<n. 0 \<le> start ! i \<and> start ! i \<le> int n \<and> 0 \<le> end ! i \<and> end ! i \<le> int n
            \<and> (offsets_ordered lower_bound upper_bound \<longrightarrow> start ! i \<le> end ! i))"
proof (cases "make_window lower_bound upper_bound")
  case (Inl err)
  with assms show ?thesis by (simp add: frame_bounds_def)
next
  case (Inr w)
  show ?thesis
  proof (cases w)
    case Expanding
    with Inr assms have "(start, end) = expanding_bounds n"
      by (simp add: frame_bounds_def window_bounds_def)
    then show ?thesis by (auto simp: expanding_bounds_def)
  next
    case (Rolling width)
    with Inr have "0 \<le> width"
      by (auto simp: make_window_def split: if_splits option.splits)
    moreover from Rolling Inr assms have "(start, end) = rolling_bounds width n"
      by (simp add: frame_bounds_def window_bounds_def)
    ultimately show ?thesis by (auto simp: rolling_bounds_def)
  next
    case (RollingIndexer ix)
    with Inr have ix: "ix = general_indexer lower_bound upper_bound"
      by (auto simp: make_window_def split: if_splits option.splits)
    from RollingIndexer Inr assms have "get_window_bounds ix n = Inr (start, end)"
      by (simp add: frame_bounds_def window_bounds_def)
    from get_window_bounds_nth [OF this] show ?thesis
      unfolding offsets_ordered_def Let_def ix [symmetric]
      by (auto split: option.splits)
  qed
qed

text \<open>
  The theorem of C2 at \<^verbatim>\<open>ROWS BETWEEN 2 PRECEDING AND 1 FOLLOWING\<close> over four rows:
  the general branch returns, its offsets are ordered, and row 3 has the frame
  \<open>[1, 4)\<close>.
\<close>

theorem frame_bounds_within_partition_witness:
  "frame_bounds (preceding 2) (following 1) 4 = Inr ([0, 0, 0, 1], [2, 3, 4, 4])
   \<and> offsets_ordered (preceding 2) (following 1)
   \<and> length [0, 0, 0, 1 :: int] = 4 \<and> length [2, 3, 4, 4 :: int] = 4
   \<and> [0, 0, 0, 1] ! 3 \<le> ([2, 3, 4, 4] ! 3 :: int)
   \<and> [2, 3, 4, 4] ! 3 \<le> (4 :: int)"
proof -
  have r: "frame_bounds (preceding 2) (following 1) 4 = Inr ([0, 0, 0, 1], [2, 3, 4, 4])"
    by (simp add: frame_bounds_def make_window_def window_bounds_def
        get_window_bounds_def general_indexer_def window_start_def window_end_def
        arange_def assign_head_def assign_tail_def preceding_def following_def upt_rec)
  have o: "offsets_ordered (preceding 2) (following 1)"
    by (simp add: offsets_ordered_def general_indexer_def preceding_def following_def)
  from frame_bounds_within_partition [OF r] r o show ?thesis
    by simp
qed

text \<open>
  C2 as stated fails: \<^verbatim>\<open>ROWS BETWEEN 1 PRECEDING AND 3 PRECEDING\<close> is a pair of
  well-formed bounds, and over five rows the indexer returns, at row 2, the range
  with \<open>start = 1\<close> and \<open>end = 0\<close>.
\<close>

theorem frame_bounds_order_counterexample:
  "valid_bound (preceding 1) \<and> valid_bound (preceding 3)
   \<and> frame_bounds (preceding 1) (preceding 3) 5 = Inr ([0, 0, 1, 2, 3], [0, 0, 0, 1, 2])
   \<and> [0, 0, 0, 1, 2] ! 2 < ([0, 0, 1, 2, 3] ! 2 :: int)"
  by (simp add: valid_bound_def frame_bounds_def make_window_def window_bounds_def
      get_window_bounds_def general_indexer_def window_start_def window_end_def
      arange_def assign_head_def assign_tail_def preceding_def upt_rec)

subsection \<open>No check of the frame order\<close>

text \<open>
  Claim C3, as the code has it. The frame indexer has no \<^verbatim>\<open>InvalidFrameBounds\<close>
  check. When the general branch has the signed offsets \<open>s\<close> (lower) and \<open>e\<close> (upper)
  with \<open>e \<noteq> 0\<close> and \<open>s > e + 1\<close>, it raises nothing and returns its sequences, and
  \<open>end_i < start_i\<close> at every row \<open>i\<close> with \<open>i + s > 0\<close> and \<open>i + e + 1 < n\<close>.
\<close>

theorem inverted_frames_are_returned:
  assumes "general_indexer lower_bound upper_bound
             = \<lparr>idx_start = Some s, idx_end = Some e\<rparr>"
    and "e \<noteq> 0" and "e + 1 < s"
    and "i < n" and "0 < int i + s" and "int i + e + 1 < int n"
  shows "\<exists>start end. frame_bounds lower_bound upper_bound n = Inr (start, end)
           \<and> end ! i < start ! i"
proof -
  let ?ix = "general_indexer lower_bound upper_bound"
  have e: "idx_end ?ix = Some e" and s: "idx_start ?ix = Some s"
    using assms(1) by simp_all
  have "\<not> (is_current_row upper_bound \<or> offset upper_bound = Some 0)"
    using general_upper_zero [of upper_bound lower_bound] e assms(2) by auto
  then have mw: "make_window lower_bound upper_bound = Inr (RollingIndexer ?ix)"
    by (simp add: make_window_def)
  from e assms(2) have "idx_end ?ix \<noteq> Some 0" by simp
  then obtain st en where r: "get_window_bounds ?ix n = Inr (st, en)"
    using get_window_bounds_returns by blast
  from get_window_bounds_nth [OF r] assms(4) s e
  have "st ! i = max 0 (min (int n) (int i + s))"
    and "en ! i = max 0 (min (int n) (int i + e + 1))"
    by auto
  with assms have "en ! i < st ! i" by auto
  moreover from mw r have "frame_bounds lower_bound upper_bound n = Inr (st, en)"
    by (simp add: frame_bounds_def window_bounds_def)
  ultimately show ?thesis by blast
qed

text \<open>
  The theorem of C3 at \<^verbatim>\<open>ROWS BETWEEN 2 FOLLOWING AND 2 PRECEDING\<close>, row 1 of four.
\<close>

theorem inverted_frames_are_returned_witness:
  "general_indexer (following 2) (preceding 2) = \<lparr>idx_start = Some 2, idx_end = Some (- 2)\<rparr>
   \<and> (\<exists>start end. frame_bounds (following 2) (preceding 2) 4 = Inr (start, end)
         \<and> end ! 1 < start ! 1)"
proof -
  have g: "general_indexer (following 2) (preceding 2)
             = \<lparr>idx_start = Some 2, idx_end = Some (- 2)\<rparr>"
    by (simp add: general_indexer_def following_def preceding_def)
  from inverted_frames_are_returned [OF g, of 1 4] g show ?thesis
    by simp
qed

text \<open>
  C3 as stated fails: for \<^verbatim>\<open>ROWS BETWEEN 3 FOLLOWING AND 1 FOLLOWING\<close> over five rows
  the indexer returns its sequences without any error, and row 0 has \<open>start = 3\<close>,
  \<open>end = 2\<close>.
\<close>

theorem no_invalid_frame_error_counterexample:
  "frame_bounds (following 3) (following 1) 5 = Inr ([3, 4, 5, 5, 5], [2, 3, 4, 5, 5])
   \<and> [2, 3, 4, 5, 5] ! 0 < ([3, 4, 5, 5, 5] ! 0 :: int)"
  by (simp add: frame_bounds_def make_window_def window_bounds_def
      get_window_bounds_def general_indexer_def window_start_def window_end_def
      arange_def assign_head_def assign_tail_def following_def upt_rec)

section \<open>Properties of bound resolution\<close>

lemma to_bound_description_no_offset:
  "getOffset java_window = None \<Longrightarrow>
     to_bound_description convert java_window constants constant_count_offset =
       Inr \<lparr>is_unbounded = isUnbounded java_window,
            is_preceding = isPreceding java_window,
            is_following = isFollowing java_window,
            is_current_row = isCurrentRow java_window,
            offset = None\<rparr>"
  by (simp add: to_bound_description_def)

text \<open>
  Claim C4, as the code has it. \<^verbatim>\<open>to_bound_description\<close> makes no check of the kind
  of the bound and knows no \<^verbatim>\<open>UnsupportedBoundKind\<close>. A raw bound without offset,
  whatever its flags, yields the description with the flags copied and no offset. A
  raw bound whose offset is not a reference yields what the integer conversion of
  that offset yields: the description with that integer, or the conversion's error.
  Every error of the function is the pool lookup's \<^verbatim>\<open>IndexError\<close> or an error of the
  conversion.
\<close>

theorem bound_kind_is_not_checked:
  "(getOffset java_window = None \<longrightarrow>
      to_bound_description convert java_window constants constant_count_offset =
        Inr \<lparr>is_unbounded = isUnbounded java_window,
             is_preceding = isPreceding java_window,
             is_following = isFollowing java_window,
             is_current_row = isCurrentRow java_window,
             offset = None\<rparr>)
   \<and> (\<forall>r. getOffset java_window = Some r \<and> (\<forall>index. r \<noteq> RexInputRef index) \<longrightarrow>
      to_bound_description convert java_window constants constant_count_offset =
        (case convert r of
           Inl err \<Rightarrow> Inl err
         | Inr v \<Rightarrow>
             Inr \<lparr>is_unbounded = isUnbounded java_window,
                  is_preceding = isPreceding java_window,
                  is_following = isFollowing java_window,
                  is_current_row = isCurrentRow java_window,
                  offset = Some v\<rparr>))
   \<and> (\<forall>err. to_bound_description convert java_window constants constant_count_offset
              = Inl err \<longrightarrow>
            err = IndexError \<or> (\<exists>r. convert r = Inl err))"
proof (intro conjI allI impI)
  assume "getOffset java_window = None"
  then show "to_bound_description convert java_window constants constant_count_offset =
        Inr \<lparr>is_unbounded = isUnbounded java_window,
             is_preceding = isPreceding java_window,
             is_following = isFollowing java_window,
             is_current_row = isCurrentRow java_window,
             offset = None\<rparr>"
    by (rule to_bound_description_no_offset)
next
  fix r
  assume "getOffset java_window = Some r \<and> (\<forall>index. r \<noteq> RexInputRef index)"
  then show "to_bound_description convert java_window constants constant_count_offset =
        (case convert r of
           Inl err \<Rightarrow> Inl err
         | Inr v \<Rightarrow>
             Inr \<lparr>is_unbounded = isUnbounded java_window,
                  is_preceding = isPreceding java_window,
                  is_following = isFollowing java_window,
                  is_current_row = isCurrentRow java_window,
                  offset = Some v\<rparr>)"
    by (cases r) (auto simp: to_bound_description_def split: sum.splits)
next
  fix err
  assume "to_bound_description convert java_window constants constant_count_offset
            = Inl err"
  then show "err = IndexError \<or> (\<exists>r. convert r = Inl err)"
    by (auto simp: to_bound_description_def Let_def list_getitem_def
        split: option.splits rex.splits sum.splits if_splits)
qed

text \<open>
  The theorem of C4 at a bound \<^verbatim>\<open>2 PRECEDING\<close> with a literal offset, and at a
  preceding bound whose offset is another kind of node, where the error is the
  converter's.
\<close>

theorem bound_kind_is_not_checked_witness:
  "to_bound_description literal_to_int
      \<lparr>getOffset = Some (RexLiteral 2), isUnbounded = False, isPreceding = True,
       isFollowing = False, isCurrentRow = False\<rparr> [] 0
     = Inr (preceding 2)
   \<and> to_bound_description literal_to_int
      \<lparr>getOffset = Some (RexCall ''+''), isUnbounded = False, isPreceding = True,
       isFollowing = False, isCurrentRow = False\<rparr> [] 0
     = Inl ConvertError
   \<and> to_bound_description literal_to_int
      \<lparr>getOffset = None, isUnbounded = False, isPreceding = False,
       isFollowing = False, isCurrentRow = True\<rparr> [] 0
     = Inr current_row"
  using bound_kind_is_not_checked [of
      "\<lparr>getOffset = Some (RexLiteral 2), isUnbounded = False, isPreceding = True,
        isFollowing = False, isCurrentRow = False\<rparr>" literal_to_int "[]" 0]
    bound_kind_is_not_checked [of
      "\<lparr>getOffset = Some (RexCall ''+''), isUnbounded = False, isPreceding = True,
        isFollowing = False, isCurrentRow = False\<rparr>" literal_to_int "[]" 0]
    bound_kind_is_not_checked [of
      "\<lparr>getOffset = None, isUnbounded = False, isPreceding = False,
        isFollowing = False, isCurrentRow = True\<rparr>" literal_to_int "[]" 0]
  by (simp add: literal_to_int_def preceding_def current_row_def)

text \<open>
  C4 as stated fails: a raw bound that is neither unbounded, nor the current row,
  nor preceding or following, and has no offset, is resolved without any error.
\<close>

theorem unsupported_bound_kind_counterexample:
  "to_bound_description literal_to_int
      \<lparr>getOffset = None, isUnbounded = False, isPreceding = False,
       isFollowing = False, isCurrentRow = False\<rparr> [] 0
     = Inr \<lparr>is_unbounded = False, is_preceding = False, is_following = False,
            is_current_row = False, offset = None\<rparr>"
  by (simp add: to_bound_description_def)

text \<open>
  Claim C5. When the offset of the raw bound is a reference with index \<open>index\<close>, the
  constant looked up is the one at position \<open>index - constant_count_offset\<close> of the
  pool, and the description stores the integer the conversion of that constant
  yields; when the raw bound has no offset, the description stores none.
\<close>

theorem pool_reference_is_dereferenced:
  "(getOffset java_window = None \<longrightarrow>
      (\<exists>b. to_bound_description convert java_window constants constant_count_offset
              = Inr b \<and> offset b = None))
   \<and> (getOffset java_window = Some (RexInputRef index)
        \<and> 0 \<le> index - constant_count_offset
        \<and> index - constant_count_offset < int (length constants) \<longrightarrow>
      to_bound_description convert java_window constants constant_count_offset =
        (case convert (constants ! nat (index - constant_count_offset)) of
           Inl err \<Rightarrow> Inl err
         | Inr v \<Rightarrow>
             Inr \<lparr>is_unbounded = isUnbounded java_window,
                  is_preceding = isPreceding java_window,
                  is_following = isFollowing java_window,
                  is_current_row = isCurrentRow java_window,
                  offset = Some v\<rparr>))"
  by (auto simp: to_bound_description_def list_getitem_def split: sum.splits)

text \<open>
  The theorem of C5 with three real columns and the pool \<open>[5, 2]\<close>: the reference
  with index 4 is the second constant, 2; and the current-row bound has no offset.
\<close>

theorem pool_reference_is_dereferenced_witness:
  "to_bound_description literal_to_int
      \<lparr>getOffset = Some (RexInputRef 4), isUnbounded = False, isPreceding = True,
       isFollowing = False, isCurrentRow = False\<rparr> [RexLiteral 5, RexLiteral 2] 3
     = Inr (preceding 2)
   \<and> (\<exists>b. to_bound_description literal_to_int
      \<lparr>getOffset = None, isUnbounded = False, isPreceding = False,
       isFollowing = False, isCurrentRow = True\<rparr> [RexLiteral 5, RexLiteral 2] 3
     = Inr b \<and> offset b = None)"
  using pool_reference_is_dereferenced [of
      "\<lparr>getOffset = Some (RexInputRef 4), isUnbounded = False, isPreceding = True,
        isFollowing = False, isCurrentRow = False\<rparr>"
      literal_to_int "[RexLiteral 5, RexLiteral 2]" 3 4]
    pool_reference_is_dereferenced [of
      "\<lparr>getOffset = None, isUnbounded = False, isPreceding = False,
        isFollowing = False, isCurrentRow = True\<rparr>"
      literal_to_int "[RexLiteral 5, RexLiteral 2]" 3 0]
  by (simp add: literal_to_int_def preceding_def)

text \<open>
  Claim C6, as the code has it. When the dereferenced index is at least the length of
  the pool, or below minus that length, resolution fails with \<^verbatim>\<open>IndexError\<close>,
  whatever the converter does.
\<close>

theorem pool_index_out_of_range:
  assumes "getOffset java_window = Some (RexInputRef index)"
    and "int (length constants) \<le> index - constant_count_offset
         \<or> index - constant_count_offset < - int (length constants)"
  shows "to_bound_description convert java_window constants constant_count_offset
           = Inl IndexError"
  using assms by (auto simp: to_bound_description_def list_getitem_def)

text \<open>
  The theorem of C6 with three real columns and the pool \<open>[5, 2]\<close>, at the reference
  with index 5.
\<close>

theorem pool_index_out_of_range_witness:
  "to_bound_description literal_to_int
      \<lparr>getOffset = Some (RexInputRef 5), isUnbounded = False, isPreceding = True,
       isFollowing = False, isCurrentRow = False\<rparr> [RexLiteral 5, RexLiteral 2] 3
     = Inl IndexError"
  using pool_index_out_of_range [of
      "\<lparr>getOffset = Some (RexInputRef 5), isUnbounded = False, isPreceding = True,
        isFollowing = False, isCurrentRow = False\<rparr>" 5
      "[RexLiteral 5, RexLiteral 2]" 3 literal_to_int]
  by simp

text \<open>
  C6 as stated fails: with three real columns and the pool \<open>[5, 2]\<close>, the reference
  with index 2 has the dereferenced index \<open>-1\<close>, outside \<open>[0, 2)\<close>; resolution does
  not fail, it takes the last constant of the pool.
\<close>

theorem negative_pool_index_counterexample:
  "to_bound_description literal_to_int
      \<lparr>getOffset = Some (RexInputRef 2), isUnbounded = False, isPreceding = True,
       isFollowing = False, isCurrentRow = False\<rparr> [RexLiteral 5, RexLiteral 2] 3
     = Inr (preceding 2)"
  by (simp add: to_bound_description_def list_getitem_def literal_to_int_def
      preceding_def)

section \<open>Properties of the function mapped on each group\<close>

subsection \<open>Assigning columns\<close>

lemma cell_at_update:
  "cell_at (AList.update c v r) c' = (if c' = c then v else cell_at r c')"
  by (simp add: cell_at_def update_conv')

lemma assign_column_rows_length:
  "assign_column c vs df = Inr df' \<Longrightarrow> length (rows df') = length (rows df)"
  by (auto simp: assign_column_def split: if_splits)

lemma get_column_assign_column_same:
  assumes "assign_column c vs df = Inr df'"
  shows "get_column df' c = Inr vs"
proof -
  from assms have len: "length vs = length (rows df)"
    and df': "df' = \<lparr>columns = (if c \<in> set (columns df) then columns df else columns df @ [c]),
                rows = map (\<lambda>(r, v). AList.update c v r) (zip (rows df) vs)\<rparr>"
    by (auto simp: assign_column_def split: if_splits)
  have "map (\<lambda>r. cell_at r c) (map (\<lambda>(r, v). AList.update c v r) (zip (rows df) vs)) = vs"
    using len by (intro nth_equalityI) (auto simp: cell_at_update)
  then show ?thesis by (simp add: get_column_def df')
qed

lemma get_column_assign_column_other:
  assumes "assign_column c vs df = Inr df'" and "c' \<noteq> c"
  shows "get_column df' c' = get_column df c'"
proof -
  from assms have len: "length vs = length (rows df)"
    and df': "df' = \<lparr>columns = (if c \<in> set (columns df) then columns df else columns df @ [c]),
                rows = map (\<lambda>(r, v). AList.update c v r) (zip (rows df) vs)\<rparr>"
    by (auto simp: assign_column_def split: if_splits)
  have "map (\<lambda>r. cell_at r c') (map (\<lambda>(r, v). AList.update c v r) (zip (rows df) vs))
          = map (\<lambda>r. cell_at r c') (rows df)"
    using len assms(2) by (intro nth_equalityI) (auto simp: cell_at_update)
  then show ?thesis using assms(2) by (auto simp add: get_column_def df')
qed

lemma assign_other:
  "assign kwargs df = Inr out \<Longrightarrow> c \<notin> fst ` set kwargs \<Longrightarrow> get_column out c = get_column df c"
proof (induction kwargs arbitrary: df)
  case Nil
  then show ?case by simp
next
  case (Cons kv kwargs)
  obtain k vs where kv: "kv = (k, vs)" by (cases kv)
  from Cons.prems(1) kv obtain df' where a: "assign_column k vs df = Inr df'"
    and b: "assign kwargs df' = Inr out"
    by (auto split: sum.splits)
  from Cons.prems(2) kv have "c \<noteq> k" "c \<notin> fst ` set kwargs" by auto
  with Cons.IH[OF b] get_column_assign_column_other[OF a] show ?case by simp
qed

lemma assign_sets_columns:
  "assign kwargs df = Inr out \<Longrightarrow> distinct (map fst kwargs) \<Longrightarrow> map_of kwargs c = Some vs
     \<Longrightarrow> get_column out c = Inr vs"
proof (induction kwargs arbitrary: df)
  case Nil
  then show ?case by simp
next
  case (Cons kv kwargs)
  obtain k ws where kv: "kv = (k, ws)" by (cases kv)
  from Cons.prems(1) kv obtain df' where a: "assign_column k ws df = Inr df'"
    and b: "assign kwargs df' = Inr out"
    by (auto split: sum.splits)
  show ?case
  proof (cases "c = k")
    case True
    with Cons.prems(3) kv have "ws = vs" by simp
    moreover from Cons.prems(2) kv True have "c \<notin> fst ` set kwargs" by auto
    ultimately show ?thesis
      using assign_other[OF b] get_column_assign_column_same[OF a] True by simp
  next
    case False
    with Cons.prems kv have "distinct (map fst kwargs)" "map_of kwargs c = Some vs" by auto
    with Cons.IH[OF b] show ?thesis by simp
  qed
qed

lemma calculate_results_keeps:
  "calculate_results wg operations acc = Inr new_columns
     \<Longrightarrow> name \<notin> (\<lambda>e. fst (snd e)) ` set operations
     \<Longrightarrow> map_of new_columns name = map_of acc name"
proof (induction operations arbitrary: acc)
  case Nil
  then show ?case by simp
next
  case (Cons entry operations)
  obtain f n cols where entry: "entry = (f, n, cols)" by (cases entry)
  from Cons.prems(1) entry obtain res where
    "calculate_results wg operations (AList.update n res acc) = Inr new_columns"
    by (auto split: sum.splits)
  moreover from Cons.prems(2) entry have "name \<noteq> n" "name \<notin> (\<lambda>e. fst (snd e)) ` set operations"
    by auto
  ultimately show ?case using Cons.IH by (simp add: update_conv')
qed

lemma calculate_results_distinct:
  "calculate_results wg operations acc = Inr new_columns \<Longrightarrow> distinct (map fst acc)
     \<Longrightarrow> distinct (map fst new_columns)"
proof (induction operations arbitrary: acc)
  case Nil
  then show ?case by simp
next
  case (Cons entry operations)
  obtain f n cols where entry: "entry = (f, n, cols)" by (cases entry)
  from Cons.prems(1) entry obtain res where
    "calculate_results wg operations (AList.update n res acc) = Inr new_columns"
    by (auto split: sum.splits)
  with Cons.IH Cons.prems(2) show ?case by (simp add: distinct_update)
qed

lemma calculate_results_row_number:
  "calculate_results wg operations acc = Inr new_columns
     \<Longrightarrow> (None, name, cols) \<in> set operations
     \<Longrightarrow> distinct (map (\<lambda>e. fst (snd e)) operations)
     \<Longrightarrow> map_of new_columns name
           = Some (map (\<lambda>i. IntV (int i)) [1..<length (rows (snd wg)) + 1])"
proof (induction operations arbitrary: acc)
  case Nil
  then show ?case by simp
next
  case (Cons entry operations)
  obtain f n cs where entry: "entry = (f, n, cs)" by (cases entry)
  show ?case
  proof (cases "entry = (None, name, cols)")
    case True
    with Cons.prems(1) have r: "calculate_results wg operations
        (AList.update name (map (\<lambda>i. IntV (int i)) [1..<length (rows (snd wg)) + 1]) acc)
          = Inr new_columns"
      by simp
    from Cons.prems(3) True have "name \<notin> (\<lambda>e. fst (snd e)) ` set operations" by auto
    from calculate_results_keeps[OF r this] show ?thesis by (simp add: update_conv')
  next
    case False
    with Cons.prems(2) have m: "(None, name, cols) \<in> set operations" by simp
    from Cons.prems(1) entry obtain res where
      r: "calculate_results wg operations (AList.update n res acc) = Inr new_columns"
      by (auto split: sum.splits)
    from Cons.prems(3) have "distinct (map (\<lambda>e. fst (snd e)) operations)" by simp
    from Cons.IH[OF r m this] show ?thesis .
  qed
qed

subsection \<open>The row number\<close>

lemma make_window_returns:
  "valid_bound lower_bound \<Longrightarrow> \<exists>w. make_window lower_bound upper_bound = Inr w"
  by (auto simp: make_window_def valid_bound_def split: option.splits if_splits)

lemma assign_row_numbers:
  "\<exists>out. assign_column name (map (\<lambda>i. IntV (int i)) [1..<length (rows df) + 1]) df = Inr out"
proof -
  have "length (map (\<lambda>i. IntV (int i)) [1..<length (rows df) + 1]) = length (rows df)"
    by (simp del: upt_Suc)
  then show ?thesis
    unfolding assign_column_def by (metis (full_types))
qed


text \<open>
  Claim C8. Whatever the window bounds are, the row number is computed without any
  frame: for a well-formed lower bound the function returns when the row number is
  the only operation, also for bounds on which the indexer would raise; and whenever
  the function returns, the column of a row-number operation is \<open>1, 2, ..., n\<close>, where
  \<open>n\<close> is the number of rows of the partition after sorting, whatever the sorting
  function and the sort keys are.
\<close>

theorem row_number_ignores_frame:
  "(valid_bound lower_bound \<longrightarrow>
      (\<exists>out. map_on_each_group sort_func partitioned_group sort_columns
                sort_ascending sort_null_first lower_bound upper_bound
                [(None, name, cols)] = Inr out))
   \<and> (\<forall>operations out.
        map_on_each_group sort_func partitioned_group sort_columns
          sort_ascending sort_null_first lower_bound upper_bound operations = Inr out
        \<and> (None, name, cols) \<in> set operations
        \<and> distinct (map (\<lambda>e. fst (snd e)) operations) \<longrightarrow>
        get_column out name =
          Inr (map (\<lambda>i. IntV (int i))
                [1..<length (rows (if sort_columns \<noteq> []
                                   then sort_func partitioned_group sort_columns
                                          sort_ascending sort_null_first
                                   else partitioned_group)) + 1]))"
proof (intro conjI allI impI)
  let ?pg = "if sort_columns \<noteq> []
             then sort_func partitioned_group sort_columns sort_ascending
                    sort_null_first
             else partitioned_group"
  {
    assume "valid_bound lower_bound"
    then obtain w where w: "make_window lower_bound upper_bound = Inr w"
      using make_window_returns by blast
    obtain out where
      "assign_column name (map (\<lambda>i. IntV (int i)) [1..<length (rows ?pg) + 1]) ?pg = Inr out"
      using assign_row_numbers by blast
    with w have "map_on_each_group sort_func partitioned_group sort_columns
                sort_ascending sort_null_first lower_bound upper_bound
                [(None, name, cols)] = Inr out"
      by (simp add: map_on_each_group_def Let_def del: upt_Suc)
    then show "\<exists>out. map_on_each_group sort_func partitioned_group sort_columns
                sort_ascending sort_null_first lower_bound upper_bound
                [(None, name, cols)] = Inr out" ..
  }
  {
    fix operations out
    assume a: "map_on_each_group sort_func partitioned_group sort_columns
          sort_ascending sort_null_first lower_bound upper_bound operations = Inr out
        \<and> (None, name, cols) \<in> set operations
        \<and> distinct (map (\<lambda>e. fst (snd e)) operations)"
    then obtain w new_columns where
      r: "calculate_results (w, ?pg) operations [] = Inr new_columns"
      and s: "assign new_columns ?pg = Inr out"
      by (auto simp: map_on_each_group_def Let_def split: sum.splits)
    from a have m: "(None, name, cols) \<in> set operations"
      and d: "distinct (map (\<lambda>e. fst (snd e)) operations)" by auto
    have "map_of new_columns name = Some (map (\<lambda>i. IntV (int i)) [1..<length (rows ?pg) + 1])"
      using calculate_results_row_number [OF r m d] by simp
    moreover have "distinct (map fst new_columns)"
      using calculate_results_distinct [OF r] by simp
    ultimately show "get_column out name = Inr (map (\<lambda>i. IntV (int i)) [1..<length (rows ?pg) + 1])"
      using assign_sets_columns [OF s] by blast
  }
qed

text \<open>
  The theorem of C8 on the partition \<open>x = 3, 1, 2\<close>, sorted by \<open>x\<close>, with the bounds
  \<^verbatim>\<open>CURRENT ROW\<close> to \<^verbatim>\<open>CURRENT ROW\<close>, for which the indexer raises.
\<close>

theorem row_number_ignores_frame_witness:
  "valid_bound current_row
   \<and> map_on_each_group stable_sort_partition (single_column ''x'' [3, 1, 2]) [''x'']
        [True] [False] current_row current_row [(None, ''rn'', [])]
      = Inr \<lparr>columns = [''x'', ''rn''],
             rows = [[(''x'', IntV 1), (''rn'', IntV 1)],
                     [(''x'', IntV 2), (''rn'', IntV 2)],
                     [(''x'', IntV 3), (''rn'', IntV 3)]]\<rparr>
   \<and> get_column \<lparr>columns = [''x'', ''rn''],
             rows = [[(''x'', IntV 1), (''rn'', IntV 1)],
                     [(''x'', IntV 2), (''rn'', IntV 2)],
                     [(''x'', IntV 3), (''rn'', IntV 3)]]\<rparr> ''rn''
      = Inr [IntV 1, IntV 2, IntV 3]
   \<and> get_window_bounds (general_indexer current_row current_row) 3 = Inl AssertionError"
proof -
  let ?out = "\<lparr>columns = [''x'', ''rn''],
             rows = [[(''x'', IntV 1), (''rn'', IntV 1)],
                     [(''x'', IntV 2), (''rn'', IntV 2)],
                     [(''x'', IntV 3), (''rn'', IntV 3)]]\<rparr>"
  have v: "valid_bound current_row"
    by (simp add: valid_bound_def current_row_def)
  have s: "stable_sort_partition (single_column ''x'' [3, 1, 2]) [''x''] [True] [False]
             = single_column ''x'' [1, 2, 3]"
    by (simp add: stable_sort_partition_def sort_by_column_def single_column_def
        cell_at_def)
  have r: "map_on_each_group stable_sort_partition (single_column ''x'' [3, 1, 2]) [''x'']
        [True] [False] current_row current_row [(None, ''rn'', [])] = Inr ?out"
    apply (simp add: map_on_each_group_def Let_def make_window_def current_row_def s
        del: upt_Suc)
    apply (simp add: single_column_def assign_column_def eval_nat_numeral)
    done
  have e: "get_window_bounds (general_indexer current_row current_row) 3
             = Inl AssertionError"
    by (simp add: get_window_bounds_def general_indexer_def window_end_def current_row_def)
  have n: "map (\<lambda>i. IntV (int i))
             [1..<length (rows (if [''x''] \<noteq> []
                then stable_sort_partition (single_column ''x'' [3, 1, 2]) [''x''] [True] [False]
                else single_column ''x'' [3, 1, 2])) + 1] = [IntV 1, IntV 2, IntV 3]"
    apply (simp add: s del: upt_Suc)
    apply (simp add: single_column_def eval_nat_numeral)
    done
  note t = row_number_ignores_frame [of current_row stable_sort_partition
      "single_column ''x'' [3, 1, 2]" "[''x'']" "[True]" "[False]" current_row "''rn''" "[]",
      THEN conjunct2, rule_format, of "[(None, ''rn'', [])]" ?out, unfolded n]
  have "get_column ?out ''rn'' = Inr [IntV 1, IntV 2, IntV 3]"
    by (rule t) (simp add: r)
  with v r e show ?thesis by blast
qed

subsection \<open>The frames of the fast paths and the sums over them\<close>

lemma frame_bounds_expanding:
  assumes "is_unbounded lower_bound"
    and "is_current_row upper_bound \<or> offset upper_bound = Some 0"
  shows "frame_bounds lower_bound upper_bound n =
           Inr (map (\<lambda>i. 0) [0..<n], map (\<lambda>i. int i + 1) [0..<n])"
  using assms
  by (simp add: frame_bounds_def make_window_def window_bounds_def expanding_bounds_def
      map_replicate_const)

lemma frame_bounds_rolling:
  assumes "\<not> is_unbounded lower_bound" and "is_preceding lower_bound"
    and "offset lower_bound = Some k" and "0 \<le> k"
    and "is_current_row upper_bound \<or> offset upper_bound = Some 0"
  shows "frame_bounds lower_bound upper_bound n =
           Inr (map (\<lambda>i. max 0 (int i - k)) [0..<n], map (\<lambda>i. int i + 1) [0..<n])"
  using assms
  by (simp add: frame_bounds_def make_window_def window_bounds_def rolling_bounds_def)

lemma running_sum_example:
  "map_on_each_group sort_func (single_column ''x'' [1, 2, 3, 4]) [] [] []
      unbounded_preceding current_row [(Some SumOperation, ''sum'', [''x''])]
  = Inr \<lparr>columns = [''x'', ''sum''],
      rows = [[(''x'', IntV 1), (''sum'', IntV 1)], [(''x'', IntV 2), (''sum'', IntV 3)],
              [(''x'', IntV 3), (''sum'', IntV 6)], [(''x'', IntV 4), (''sum'', IntV 10)]]\<rparr>"
  by (simp add: map_on_each_group_def make_window_def unbounded_preceding_def current_row_def
     on_column_def get_column_def single_column_def over_frames_def window_bounds_def expanding_bounds_def
     frame_rows_def sum_frame_def non_null_def assign_column_def cell_at_def upt_rec eval_nat_numeral)

lemma trailing_sum_example:
  "map_on_each_group sort_func (single_column ''x'' [1, 2, 3, 4, 5]) [] [] []
      (preceding 2) current_row [(Some SumOperation, ''sum'', [''x''])]
  = Inr \<lparr>columns = [''x'', ''sum''],
      rows = [[(''x'', IntV 1), (''sum'', IntV 1)], [(''x'', IntV 2), (''sum'', IntV 3)],
              [(''x'', IntV 3), (''sum'', IntV 6)], [(''x'', IntV 4), (''sum'', IntV 9)],
              [(''x'', IntV 5), (''sum'', IntV 12)]]\<rparr>"
  by (simp add: map_on_each_group_def make_window_def preceding_def current_row_def
     on_column_def get_column_def single_column_def over_frames_def window_bounds_def rolling_bounds_def
     frame_rows_def sum_frame_def non_null_def assign_column_def cell_at_def upt_rec eval_nat_numeral)


text \<open>
  Claim C9. When the lower bound is unbounded and the upper bound is the current row
  or has offset 0, the frames are \<open>start_i = 0\<close>, \<open>end_i = i + 1\<close>; when the lower bound
  is preceding with the offset \<open>k\<close> and the upper bound is the current row or has offset
  0, they are \<open>start_i = max(0, i - k)\<close>, \<open>end_i = i + 1\<close>. The running sum over
  \<open>1, 2, 3, 4\<close> is \<open>1, 3, 6, 10\<close>, and the sum from 2 preceding to the current row over
  \<open>1, 2, 3, 4, 5\<close> is \<open>1, 3, 6, 9, 12\<close>.
\<close>

theorem fast_path_frames_and_sums:
  "(is_unbounded lower_bound \<and> (is_current_row upper_bound \<or> offset upper_bound = Some 0) \<longrightarrow>
      frame_bounds lower_bound upper_bound n =
        Inr (map (\<lambda>i. 0) [0..<n], map (\<lambda>i. int i + 1) [0..<n]))
   \<and> (\<not> is_unbounded lower_bound \<and> is_preceding lower_bound \<and> offset lower_bound = Some k
        \<and> 0 \<le> k \<and> (is_current_row upper_bound \<or> offset upper_bound = Some 0) \<longrightarrow>
      frame_bounds lower_bound upper_bound n =
        Inr (map (\<lambda>i. max 0 (int i - k)) [0..<n], map (\<lambda>i. int i + 1) [0..<n]))
   \<and> map_on_each_group sort_func (single_column ''x'' [1, 2, 3, 4]) [] [] []
        unbounded_preceding current_row [(Some SumOperation, ''sum'', [''x''])]
      = Inr \<lparr>columns = [''x'', ''sum''],
          rows = [[(''x'', IntV 1), (''sum'', IntV 1)], [(''x'', IntV 2), (''sum'', IntV 3)],
                  [(''x'', IntV 3), (''sum'', IntV 6)], [(''x'', IntV 4), (''sum'', IntV 10)]]\<rparr>
   \<and> map_on_each_group sort_func (single_column ''x'' [1, 2, 3, 4, 5]) [] [] []
        (preceding 2) current_row [(Some SumOperation, ''sum'', [''x''])]
      = Inr \<lparr>columns = [''x'', ''sum''],
          rows = [[(''x'', IntV 1), (''sum'', IntV 1)], [(''x'', IntV 2), (''sum'', IntV 3)],
                  [(''x'', IntV 3), (''sum'', IntV 6)], [(''x'', IntV 4), (''sum'', IntV 9)],
                  [(''x'', IntV 5), (''sum'', IntV 12)]]\<rparr>"
  using frame_bounds_expanding [of lower_bound upper_bound n]
    frame_bounds_rolling [of lower_bound k upper_bound n]
    running_sum_example [of sort_func] trailing_sum_example [of sort_func]
  by blast


text \<open>
  The theorem of C9 at \<^verbatim>\<open>UNBOUNDED PRECEDING\<close> to \<^verbatim>\<open>CURRENT ROW\<close> over four rows and
  at \<^verbatim>\<open>2 PRECEDING\<close> to \<^verbatim>\<open>0 FOLLOWING\<close> over five rows.
\<close>

theorem fast_path_frames_and_sums_witness:
  "is_unbounded unbounded_preceding \<and> is_current_row current_row
   \<and> frame_bounds unbounded_preceding current_row 4 = Inr ([0, 0, 0, 0], [1, 2, 3, 4])
   \<and> is_preceding (preceding 2) \<and> offset (following 0) = Some 0
   \<and> frame_bounds (preceding 2) (following 0) 5 = Inr ([0, 0, 0, 1, 2], [1, 2, 3, 4, 5])"
  using fast_path_frames_and_sums [of unbounded_preceding current_row 4 0 undefined]
    fast_path_frames_and_sums [of "preceding 2" "following 0" 5 2 undefined]
  by (simp add: unbounded_preceding_def current_row_def preceding_def following_def upt_rec)

section \<open>Properties of the extraction\<close>

subsection \<open>Drawing names and assigning columns\<close>

lemma new_temporary_column_fresh:
  "new_temporary_column df uuids = Some (name, rest)
     \<Longrightarrow> name \<notin> set (columns df) \<and> (\<exists>skipped. uuids = skipped @ name # rest)"
proof (induction uuids)
  case Nil
  then show ?case by simp
next
  case (Cons u uuids)
  show ?case
  proof (cases "u \<in> set (columns df)")
    case True
    with Cons obtain skipped where "name \<notin> set (columns df)" "uuids = skipped @ name # rest"
      by auto
    then have "u # uuids = (u # skipped) @ name # rest" by simp
    with \<open>name \<notin> set (columns df)\<close> show ?thesis by blast
  next
    case False
    with Cons.prems have "u = name" "uuids = rest" by auto
    with False show ?thesis by auto
  qed
qed

lemma new_temporary_column_head:
  "u \<notin> set (columns df) \<Longrightarrow> new_temporary_column df (u # uuids) = Some (u, uuids)"
  by simp

lemma assign_column_columns:
  "assign_column c vs df = Inr df' \<Longrightarrow>
     columns df' = (if c \<in> set (columns df) then columns df else columns df @ [c])
     \<and> length (rows df') = length (rows df)"
  by (auto simp: assign_column_def split: if_splits)

lemma assign_succeeds:
  "\<forall>kv \<in> set kwargs. length (snd kv) = length (rows df) \<Longrightarrow>
     \<exists>df'. assign kwargs df = Inr df' \<and> length (rows df') = length (rows df)
       \<and> set (columns df') = set (columns df) \<union> fst ` set kwargs"
proof (induction kwargs arbitrary: df)
  case Nil
  then show ?case by simp
next
  case (Cons kv kwargs)
  obtain k vs where kv: "kv = (k, vs)" by (cases kv)
  with Cons.prems have len: "length vs = length (rows df)" by simp
  then obtain df1 where a: "assign_column k vs df = Inr df1"
    by (auto simp: assign_column_def)
  from assign_column_columns[OF a] have c1: "set (columns df1) = insert k (set (columns df))"
    and r1: "length (rows df1) = length (rows df)" by (auto split: if_splits)
  from Cons.prems r1 have "\<forall>kv \<in> set kwargs. length (snd kv) = length (rows df1)" by simp
  from Cons.IH[OF this] obtain df' where "assign kwargs df1 = Inr df'"
    "length (rows df') = length (rows df1)"
    "set (columns df') = set (columns df1) \<union> fst ` set kwargs" by blast
  with a kv c1 r1 show ?case by auto
qed

lemma name_operand_columns_succeeds:
  "\<forall>operand \<in> set operands. \<exists>col. rex_convert ext operand dc = Inr col \<and> length col = n
     \<Longrightarrow> distinct uuids \<Longrightarrow> set uuids \<inter> set (columns df) = {}
     \<Longrightarrow> length operands \<le> length uuids
     \<Longrightarrow> \<forall>kv \<in> set named. length (snd kv) = n
     \<Longrightarrow> \<exists>named'. name_operand_columns ext dc df operands uuids named
            = Inr (named', drop (length operands) uuids)
          \<and> (\<forall>kv \<in> set named'. length (snd kv) = n)
          \<and> fst ` set named' = fst ` set named \<union> set (take (length operands) uuids)"
proof (induction operands arbitrary: uuids named)
  case Nil
  then show ?case by simp
next
  case (Cons operand operands)
  from Cons.prems obtain u rest where u: "uuids = u # rest" by (cases uuids) auto
  with Cons.prems have fresh: "u \<notin> set (columns df)" by auto
  from Cons.prems(1) obtain col where
    col: "rex_convert ext operand dc = Inr col" "length col = n"
    by auto
  have named: "\<forall>kv \<in> set (AList.update u col named). length (snd kv) = n"
    using Cons.prems(5) col(2) by (induction named) auto
  from Cons.prems(1) have conv: "\<forall>operand \<in> set operands.
      \<exists>col. rex_convert ext operand dc = Inr col \<and> length col = n" by simp
  from Cons.prems u have "distinct rest" "set rest \<inter> set (columns df) = {}"
    "length operands \<le> length rest" by auto
  from Cons.IH[OF conv this named] obtain named' where
    "name_operand_columns ext dc df operands rest (AList.update u col named)
       = Inr (named', drop (length operands) rest)"
    "\<forall>kv \<in> set named'. length (snd kv) = n"
    "fst ` set named' = fst ` set (AList.update u col named) \<union> set (take (length operands) rest)"
    by blast
  with u fresh col show ?case by (auto simp: dom_update)
qed

subsection \<open>Unknown operators\<close>

lemma lookup_operation_known:
  "operator_known functions agg_call \<Longrightarrow>
     \<exists>operation. lookup_operation functions (lower (getOperatorName agg_call)) = Inr operation"
  by (auto simp: operator_known_def lookup_operation_def split: option.splits)

lemma lookup_operation_unknown:
  "\<not> operator_known functions agg_call \<Longrightarrow>
     lookup_operation functions (lower (getOperatorName agg_call)) = Inl NotImplementedError"
  by (auto simp: operator_known_def lookup_operation_def split: option.splits)

lemma extract_operations_outcome:
  "\<forall>agg_call \<in> set agg_calls. \<forall>operand \<in> set (getOperands agg_call).
       \<exists>col. rex_convert ext operand dc = Inr col \<and> length col = n
     \<Longrightarrow> length (rows df) = n \<Longrightarrow> distinct uuids \<Longrightarrow> set uuids \<inter> set (columns df) = {}
     \<Longrightarrow> names_needed agg_calls \<le> length uuids
     \<Longrightarrow> (if list_all (operator_known functions) agg_calls
          then \<exists>operations' df' uuids'.
                 extract_operations ext functions dc agg_calls df uuids operations
                   = Inr (operations @ operations', df', uuids')
                 \<and> length operations' = length agg_calls
          else extract_operations ext functions dc agg_calls df uuids operations
                 = Inl NotImplementedError)"
proof (induction agg_calls arbitrary: df uuids operations)
  case Nil
  then show ?case by simp
next
  case (Cons agg_call agg_calls)
  show ?case
  proof (cases "operator_known functions agg_call")
    case False
    then show ?thesis
      by (simp add: lookup_operation_unknown)
  next
    case True
    then obtain operation where
      op: "lookup_operation functions (lower (getOperatorName agg_call)) = Inr operation"
      using lookup_operation_known by blast
    let ?k = "length (getOperands agg_call)"
    from Cons.prems(1) have conv: "\<forall>operand \<in> set (getOperands agg_call).
        \<exists>col. rex_convert ext operand dc = Inr col \<and> length col = n"
      and conv': "\<forall>agg_call \<in> set agg_calls. \<forall>operand \<in> set (getOperands agg_call).
        \<exists>col. rex_convert ext operand dc = Inr col \<and> length col = n"
      by simp_all
    from Cons.prems(5) have need: "?k + 1 + names_needed agg_calls \<le> length uuids"
      by (simp add: names_needed_def)
    then have k: "?k \<le> length uuids" by simp
    from name_operand_columns_succeeds[OF conv Cons.prems(3,4) k, of "[]"]
    obtain named where
      named: "name_operand_columns ext dc df (getOperands agg_call) uuids []
                = Inr (named, drop ?k uuids)"
      and lens: "\<forall>kv \<in> set named. length (snd kv) = n"
      and keys: "fst ` set named = set (take ?k uuids)"
      by auto
    from lens Cons.prems(2) have "\<forall>kv \<in> set named. length (snd kv) = length (rows df)"
      by simp
    from assign_succeeds[OF this] obtain df1 where
      df1: "assign named df = Inr df1" "length (rows df1) = length (rows df)"
      "set (columns df1) = set (columns df) \<union> fst ` set named" by blast
    from need obtain u rest where rest: "drop ?k uuids = u # rest"
      by (cases "drop ?k uuids") auto
    have split: "uuids = take ?k uuids @ u # rest"
      using rest by (metis append_take_drop_id)
    with Cons.prems(3) have d: "distinct (take ?k uuids @ u # rest)" by simp
    then have u_new: "u \<notin> set (take ?k uuids)" and rest_d: "distinct rest"
      and rest_new: "set rest \<inter> set (take ?k uuids) = {}" by auto
    from split Cons.prems(4) have "u \<notin> set (columns df)" "set rest \<inter> set (columns df) = {}"
      by (metis Un_iff disjoint_iff list.set_intros(1) set_append,
          metis Un_iff disjoint_iff list.set_intros(2) set_append)
    with u_new rest_new df1(3) keys have fresh: "u \<notin> set (columns df1)"
      and rest_fresh: "set rest \<inter> set (columns df1) = {}" by auto
    from fresh rest have nt: "new_temporary_column df1 (drop ?k uuids) = Some (u, rest)"
      by simp
    have len_rest: "names_needed agg_calls \<le> length rest"
    proof -
      have "length uuids = ?k + 1 + length rest"
        using split by (metis add.assoc length_append length_Cons length_take min.absorb2 k
            plus_1_eq_Suc)
      with need show ?thesis by simp
    qed
    have r1: "length (rows df1) = n" using df1(2) Cons.prems(2) by simp
    note IH = Cons.IH[OF conv' r1 rest_d rest_fresh len_rest,
        of "operations @ [(operation, u, map fst named)]"]
    have step: "extract_operations ext functions dc (agg_call # agg_calls) df uuids operations
      = extract_operations ext functions dc agg_calls df1 rest
          (operations @ [(operation, u, map fst named)])"
      using op named df1(1) nt by (simp add: Let_def)
    show ?thesis
    proof (cases "list_all (operator_known functions) agg_calls")
      case all: True
      with IH obtain operations' df' uuids' where
        "extract_operations ext functions dc agg_calls df1 rest
            (operations @ [(operation, u, map fst named)])
          = Inr ((operations @ [(operation, u, map fst named)]) @ operations', df', uuids')"
        "length operations' = length agg_calls" by auto
      with step have "extract_operations ext functions dc (agg_call # agg_calls) df uuids operations
          = Inr (operations @ ((operation, u, map fst named) # operations'), df', uuids')
          \<and> length ((operation, u, map fst named) # operations') = length (agg_call # agg_calls)"
        by simp
      with True all show ?thesis by (auto simp del: extract_operations.simps)
    next
      case False
      with IH step True show ?thesis by (simp del: extract_operations.simps)
    qed
  qed
qed

text \<open>
  Claim C7. The operator name of an aggregate call is the name that the lookups of
  lines 400-406 use: line 398 lower-cases it first. When the ordering and the grouping
  are extracted, the operands convert, and the draws are new names, the extraction of
  the operations returns one entry for each aggregate call if the name of every call
  is a key of the registry or of the functions of the context; otherwise it fails with
  \<^verbatim>\<open>NotImplementedError\<close>, and so does \<^verbatim>\<open>_apply_window\<close>, which thus returns before the
  function is mapped on any group.
\<close>

theorem unknown_operator_is_refused:
  assumes "extract_ordering window (dc_column_container dc) = Inr sort_spec"
    and "extract_groupby ext (dc_df dc) window dc uuids0 = Inr (df, group_columns, uuids)"
    and "\<forall>agg_call \<in> set (aggCalls window). \<forall>operand \<in> set (getOperands agg_call).
            \<exists>col. rex_convert ext operand dc = Inr col \<and> length col = length (rows df)"
    and "distinct uuids" and "set uuids \<inter> set (columns df) = {}"
    and "names_needed (aggCalls window) \<le> length uuids"
  shows "if list_all (operator_known functions) (aggCalls window)
         then \<exists>operations df' uuids'.
                extract_operations ext functions dc (aggCalls window) df uuids []
                  = Inr (operations, df', uuids')
                \<and> length operations = length (aggCalls window)
         else extract_operations ext functions dc (aggCalls window) df uuids []
                = Inl NotImplementedError
              \<and> apply_window ext functions window constants constant_count_offset dc
                    field_names uuids0
                = Inl NotImplementedError"
proof (cases "list_all (operator_known functions) (aggCalls window)")
  case True
  with extract_operations_outcome [of _ _ _ _ _ _ "functions" "[]",
      OF assms(3) refl assms(4,5,6)]
  show ?thesis by auto
next
  case False
  with extract_operations_outcome [of _ _ _ _ _ _ "functions" "[]",
      OF assms(3) refl assms(4,5,6)]
  have e: "extract_operations ext functions dc (aggCalls window) df uuids []
             = Inl NotImplementedError"
    by simp
  obtain sort_columns sort_ascending sort_null_first where
    "sort_spec = (sort_columns, sort_ascending, sort_null_first)"
    by (cases sort_spec) auto
  with assms(1,2) e
  have "apply_window ext functions window constants constant_count_offset dc
          field_names uuids0 = Inl NotImplementedError"
    by (simp add: apply_window_def Let_def)
  with e False show ?thesis by simp
qed

text \<open>
  The theorem of C7 on the concrete table, for a window group whose second call,
  \<^verbatim>\<open>AVG\<close>, is unknown.
\<close>

theorem unknown_operator_is_refused_witness:
  "\<not> list_all (operator_known Map.empty)
        [\<lparr>getOperatorName = ''SUM'', getOperands = [RexInputRef 1]\<rparr>,
         \<lparr>getOperatorName = ''AVG'', getOperands = [RexInputRef 1]\<rparr>]
   \<and> apply_window example_externals Map.empty
        (example_window
           [\<lparr>getOperatorName = ''SUM'', getOperands = [RexInputRef 1]\<rparr>,
            \<lparr>getOperatorName = ''AVG'', getOperands = [RexInputRef 1]\<rparr>])
        [] 2 example_container [''g'', ''x'', ''s'', ''a'']
        [''u1'', ''u2'', ''u3'', ''u4'', ''u5'', ''u6'']
      = Inl NotImplementedError"
proof -
  let ?calls = "[\<lparr>getOperatorName = ''SUM'', getOperands = [RexInputRef 1]\<rparr>,
                 \<lparr>getOperatorName = ''AVG'', getOperands = [RexInputRef 1]\<rparr>]"
  let ?df = "\<lparr>columns = [''g'', ''x'', ''u1'', ''u2''],
          rows = [[(''g'', IntV 1), (''x'', IntV 3), (''u1'', IntV 1), (''u2'', IntV 1)],
                  [(''g'', Null), (''x'', IntV 5), (''u1'', IntV 0), (''u2'', IntV 0)],
                  [(''g'', IntV 1), (''x'', IntV 1), (''u1'', IntV 1), (''u2'', IntV 1)]]\<rparr>"
  have o: "extract_ordering (example_window ?calls) (dc_column_container example_container)
             = Inr ([''x''], [True], [True])"
    by (simp add: extract_ordering_def example_window_def example_container_def
        get_backend_by_frontend_index_def list_getitem_def)
  have g: "extract_groupby example_externals (dc_df example_container) (example_window ?calls)
             example_container [''u1'', ''u2'', ''u3'', ''u4'', ''u5'', ''u6'']
           = Inr (?df, [''u1'', ''u2''], [''u3'', ''u4'', ''u5'', ''u6''])"
    by (simp add: extract_groupby_def example_window_def example_container_def
        get_backend_by_frontend_index_def list_getitem_def example_table_def get_column_def
        cell_at_def example_externals_def null_flags_and_values_def assign_column_def)
  have c: "\<forall>agg_call \<in> set (aggCalls (example_window ?calls)).
             \<forall>operand \<in> set (getOperands agg_call).
               \<exists>col. rex_convert example_externals operand example_container = Inr col
                 \<and> length col = length (rows ?df)"
    by (simp add: example_window_def example_externals_def column_operand_def
        example_container_def get_backend_by_frontend_index_def list_getitem_def
        example_table_def get_column_def)
  have d: "distinct [''u3'', ''u4'', ''u5'', ''u6'']"
    and f: "set [''u3'', ''u4'', ''u5'', ''u6''] \<inter> set (columns ?df) = {}"
    and n: "names_needed (aggCalls (example_window ?calls))
              \<le> length [''u3'', ''u4'', ''u5'', ''u6'']"
    by (simp_all add: names_needed_def example_window_def)
  have k: "\<not> list_all (operator_known Map.empty) ?calls"
    by (simp add: operator_known_def OPERATION_MAPPING_def lower_def char_lower_def)
  then have k': "\<not> list_all (operator_known Map.empty) (aggCalls (example_window ?calls))"
    by (simp add: example_window_def)
  from unknown_operator_is_refused [of _ _ _ _ _ _ _ _ Map.empty "[]" 2
      "[''g'', ''x'', ''s'', ''a'']", OF o g c d f n] k' k
  show ?thesis by simp
qed

section \<open>Properties of applying a window group\<close>

subsection \<open>Assigned columns leave the other cells alone\<close>

lemma filter_update_other:
  "c \<notin> S \<Longrightarrow> filter (\<lambda>(k, v). k \<in> S) (AList.update c x r) = filter (\<lambda>(k, v). k \<in> S) r"
  by (induction r) auto

lemma assign_column_wf:
  assumes "assign_column c vs df = Inr df'" and "wf_dataframe df"
  shows "wf_dataframe df'"
proof -
  from assms(1) have len: "length vs = length (rows df)"
    and df': "df' = \<lparr>columns = (if c \<in> set (columns df) then columns df else columns df @ [c]),
                rows = map (\<lambda>(r, v). AList.update c v r) (zip (rows df) vs)\<rparr>"
    by (auto simp: assign_column_def split: if_splits)
  from assms(2) have d: "distinct (columns df)"
    and k: "\<forall>r \<in> set (rows df). map fst r = columns df"
    by (auto simp: wf_dataframe_def list_all_iff)
  have "\<forall>rv \<in> set (zip (rows df) vs). map fst (AList.update c (snd rv) (fst rv)) = columns df'"
  proof
    fix rv assume "rv \<in> set (zip (rows df) vs)"
    then have "fst rv \<in> set (rows df)" by (metis prod.collapse set_zip_leftD)
    with k have "map fst (fst rv) = columns df" by blast
    then show "map fst (AList.update c (snd rv) (fst rv)) = columns df'"
      by (simp add: update_keys df')
  qed
  with d show ?thesis
    by (auto simp: wf_dataframe_def list_all_iff df')
qed

lemma assign_column_cells:
  assumes "assign_column c vs df = Inr df'" and "c \<notin> set cs"
  shows "cells_in cs df' = cells_in cs df"
proof -
  from assms(1) have len: "length vs = length (rows df)"
    and df': "df' = \<lparr>columns = (if c \<in> set (columns df) then columns df else columns df @ [c]),
                rows = map (\<lambda>(r, v). AList.update c v r) (zip (rows df) vs)\<rparr>"
    by (auto simp: assign_column_def split: if_splits)
  show ?thesis
    unfolding cells_in_def df' using len assms(2)
    by (intro nth_equalityI) (auto simp: filter_update_other)
qed

lemma assign_wf:
  "assign kwargs df = Inr df' \<Longrightarrow> wf_dataframe df \<Longrightarrow> wf_dataframe df'"
proof (induction kwargs arbitrary: df)
  case Nil
  then show ?case by simp
next
  case (Cons kv kwargs)
  obtain k vs where kv: "kv = (k, vs)" by (cases kv)
  from Cons.prems(1) kv obtain df1 where a: "assign_column k vs df = Inr df1"
    and b: "assign kwargs df1 = Inr df'"
    by (auto split: sum.splits)
  from assign_column_wf[OF a Cons.prems(2)] Cons.IH[OF b] show ?case by simp
qed

lemma assign_cells:
  "assign kwargs df = Inr df' \<Longrightarrow> fst ` set kwargs \<inter> set cs = {}
     \<Longrightarrow> cells_in cs df' = cells_in cs df"
proof (induction kwargs arbitrary: df)
  case Nil
  then show ?case by simp
next
  case (Cons kv kwargs)
  obtain k vs where kv: "kv = (k, vs)" by (cases kv)
  from Cons.prems(1) kv obtain df1 where a: "assign_column k vs df = Inr df1"
    and b: "assign kwargs df1 = Inr df'"
    by (auto split: sum.splits)
  from Cons.prems(2) kv have "k \<notin> set cs" "fst ` set kwargs \<inter> set cs = {}" by auto
  with assign_column_cells[OF a] Cons.IH[OF b] show ?case by simp
qed

lemma assign_columns_fresh:
  "assign kwargs df = Inr df' \<Longrightarrow> distinct (map fst kwargs)
     \<Longrightarrow> fst ` set kwargs \<inter> set (columns df) = {}
     \<Longrightarrow> columns df' = columns df @ map fst kwargs"
proof (induction kwargs arbitrary: df)
  case Nil
  then show ?case by simp
next
  case (Cons kv kwargs)
  obtain k vs where kv: "kv = (k, vs)" by (cases kv)
  from Cons.prems(1) kv obtain df1 where a: "assign_column k vs df = Inr df1"
    and b: "assign kwargs df1 = Inr df'"
    by (auto split: sum.splits)
  from Cons.prems(3) kv have "k \<notin> set (columns df)" by auto
  with assign_column_columns[OF a] have c1: "columns df1 = columns df @ [k]" by simp
  from Cons.prems(2,3) kv have "distinct (map fst kwargs)"
    "fst ` set kwargs \<inter> set (columns df1) = {}"
    by (auto simp: c1)
  from Cons.IH[OF b this] c1 kv show ?case by simp
qed

lemma assign_rows_length:
  "assign kwargs df = Inr df' \<Longrightarrow> length (rows df') = length (rows df)"
proof (induction kwargs arbitrary: df)
  case Nil
  then show ?case by simp
next
  case (Cons kv kwargs)
  obtain k vs where kv: "kv = (k, vs)" by (cases kv)
  from Cons.prems(1) kv obtain df1 where a: "assign_column k vs df = Inr df1"
    and b: "assign kwargs df1 = Inr df'"
    by (auto split: sum.splits)
  from assign_column_columns[OF a] Cons.IH[OF b] show ?case by simp
qed

lemma cells_in_wf:
  "wf_dataframe df \<Longrightarrow> cells_in (columns df) df = rows df"
proof -
  assume "wf_dataframe df"
  then have k: "\<forall>r \<in> set (rows df). map fst r = columns df"
    by (auto simp: wf_dataframe_def list_all_iff)
  have "\<forall>r \<in> set (rows df). filter (\<lambda>(c, v). c \<in> set (columns df)) r = r"
  proof
    fix r assume "r \<in> set (rows df)"
    with k have "set (map fst r) = set (columns df)" by simp
    then have "\<forall>x \<in> set r. fst x \<in> set (columns df)" by auto
    then show "filter (\<lambda>(c, v). c \<in> set (columns df)) r = r"
      by (intro filter_True) auto
  qed
  then show ?thesis
    unfolding cells_in_def by (simp add: map_idI)
qed

lemma cells_in_subset:
  assumes "set cs \<subseteq> set cs'" and "cells_in cs' df' = cells_in cs' df"
  shows "cells_in cs df' = cells_in cs df"
proof -
  have f: "\<And>r. filter (\<lambda>(c, v). c \<in> set cs) (filter (\<lambda>(c, v). c \<in> set cs') r)
             = filter (\<lambda>(c, v). c \<in> set cs) r"
    using assms(1) by (auto intro!: filter_cong)
  have "cells_in cs df' = map (filter (\<lambda>(c, v). c \<in> set cs)) (cells_in cs' df')"
    by (simp add: cells_in_def f del: filter_filter)
  also have "\<dots> = map (filter (\<lambda>(c, v). c \<in> set cs)) (cells_in cs' df)"
    by (simp add: assms(2))
  also have "\<dots> = cells_in cs df"
    by (simp add: cells_in_def f del: filter_filter)
  finally show ?thesis .
qed

subsection \<open>The names drawn are new and different\<close>

lemma new_temporary_column_distinct:
  assumes "new_temporary_column df uuids = Some (name, rest)" and "distinct uuids"
  shows "name \<notin> set (columns df) \<and> name \<in> set uuids \<and> name \<notin> set rest
         \<and> distinct rest \<and> set rest \<subseteq> set uuids"
proof -
  from new_temporary_column_fresh[OF assms(1)] obtain skipped where
    "name \<notin> set (columns df)" "uuids = skipped @ name # rest" by blast
  with assms(2) show ?thesis by auto
qed

lemma update_values: "snd ` set (AList.update k v al) \<subseteq> insert v (snd ` set al)"
  by (induction al) auto

lemma name_group_columns_names:
  "name_group_columns df cols uuids acc = Inr (named, rest) \<Longrightarrow> distinct uuids
     \<Longrightarrow> distinct (map fst acc) \<Longrightarrow> fst ` set acc \<inter> set uuids = {}
     \<Longrightarrow> fst ` set acc \<inter> set (columns df) = {}
     \<Longrightarrow> distinct (map fst named) \<and> fst ` set named \<inter> set (columns df) = {}
         \<and> fst ` set named \<inter> set rest = {} \<and> distinct rest \<and> set rest \<subseteq> set uuids
         \<and> fst ` set named \<subseteq> fst ` set acc \<union> set uuids
         \<and> snd ` set named \<subseteq> snd ` set acc \<union> set cols"
proof (induction cols arbitrary: uuids acc)
  case Nil
  then show ?case by auto
next
  case (Cons col cols)
  from Cons.prems(1) obtain name uuids' where
    nt: "new_temporary_column df uuids = Some (name, uuids')"
    and rec: "name_group_columns df cols uuids' (AList.update name col acc) = Inr (named, rest)"
    by (auto split: option.splits)
  from new_temporary_column_distinct[OF nt Cons.prems(2)]
  have n: "name \<notin> set (columns df)" "name \<in> set uuids" "name \<notin> set uuids'"
    "distinct uuids'" "set uuids' \<subseteq> set uuids" by auto
  have a1: "distinct (map fst (AList.update name col acc))"
    using Cons.prems(3) by (rule distinct_update)
  have a2: "fst ` set (AList.update name col acc) \<inter> set uuids' = {}"
    using Cons.prems(4) n by (auto simp: dom_update)
  have a3: "fst ` set (AList.update name col acc) \<inter> set (columns df) = {}"
    using Cons.prems(5) n by (auto simp: dom_update)
  from Cons.IH[OF rec n(4) a1 a2 a3]
  have ih: "distinct (map fst named)" "fst ` set named \<inter> set (columns df) = {}"
    "fst ` set named \<inter> set rest = {}" "distinct rest" "set rest \<subseteq> set uuids'"
    "fst ` set named \<subseteq> fst ` set (AList.update name col acc) \<union> set uuids'"
    "snd ` set named \<subseteq> snd ` set (AList.update name col acc) \<union> set cols"
    by auto
  from ih(6) n have "fst ` set named \<subseteq> fst ` set acc \<union> set uuids"
    by (auto simp: dom_update)
  moreover from ih(7) update_values[of name col acc]
  have "snd ` set named \<subseteq> snd ` set acc \<union> set (col # cols)" by auto
  moreover from ih(5) n(5) have "set rest \<subseteq> set uuids" by auto
  ultimately show ?case using ih(1-4) by blast
qed

lemma name_operand_columns_names:
  "name_operand_columns ext dc df operands uuids acc = Inr (named, rest) \<Longrightarrow> distinct uuids
     \<Longrightarrow> distinct (map fst acc) \<Longrightarrow> fst ` set acc \<inter> set uuids = {}
     \<Longrightarrow> fst ` set acc \<inter> set (columns df) = {}
     \<Longrightarrow> distinct (map fst named) \<and> fst ` set named \<inter> set (columns df) = {}
         \<and> fst ` set named \<inter> set rest = {} \<and> distinct rest \<and> set rest \<subseteq> set uuids
         \<and> fst ` set named \<subseteq> fst ` set acc \<union> set uuids"
proof (induction operands arbitrary: uuids acc)
  case Nil
  then show ?case by auto
next
  case (Cons operand operands)
  from Cons.prems(1) obtain name uuids' col where
    nt: "new_temporary_column df uuids = Some (name, uuids')"
    and rec: "name_operand_columns ext dc df operands uuids' (AList.update name col acc)
                = Inr (named, rest)"
    by (auto split: option.splits sum.splits)
  from new_temporary_column_distinct[OF nt Cons.prems(2)]
  have n: "name \<notin> set (columns df)" "name \<in> set uuids" "name \<notin> set uuids'"
    "distinct uuids'" "set uuids' \<subseteq> set uuids" by auto
  have a1: "distinct (map fst (AList.update name col acc))"
    using Cons.prems(3) by (rule distinct_update)
  have a2: "fst ` set (AList.update name col acc) \<inter> set uuids' = {}"
    using Cons.prems(4) n by (auto simp: dom_update)
  have a3: "fst ` set (AList.update name col acc) \<inter> set (columns df) = {}"
    using Cons.prems(5) n by (auto simp: dom_update)
  from Cons.IH[OF rec n(4) a1 a2 a3]
  have ih: "distinct (map fst named)" "fst ` set named \<inter> set (columns df) = {}"
    "fst ` set named \<inter> set rest = {}" "distinct rest" "set rest \<subseteq> set uuids'"
    "fst ` set named \<subseteq> fst ` set (AList.update name col acc) \<union> set uuids'"
    by auto
  from ih(6) n have "fst ` set named \<subseteq> fst ` set acc \<union> set uuids"
    by (auto simp: dom_update)
  moreover from ih(5) n(5) have "set rest \<subseteq> set uuids" by auto
  ultimately show ?case using ih(1-4) by blast
qed

subsection \<open>The frames after the extraction\<close>

lemma assign_null_free:
  assumes "assign named df = Inr df1" and "distinct (map fst named)"
    and "\<forall>col \<in> snd ` set named. Null \<notin> set col"
  shows "\<forall>r \<in> set (rows df1). Null \<notin> set (group_key (map fst named) r)"
proof (intro ballI notI)
  fix r assume r: "r \<in> set (rows df1)" and "Null \<in> set (group_key (map fst named) r)"
  then have "\<exists>g \<in> fst ` set named. cell_at r g = Null"
    by (force simp: group_key_def)
  then obtain g where g: "g \<in> fst ` set named" "cell_at r g = Null"
    by blast
  then obtain col where col: "(g, col) \<in> set named" by auto
  with assms(2) have "map_of named g = Some col" by simp
  from assign_sets_columns[OF assms(1,2) this]
  have "map (\<lambda>r. cell_at r g) (rows df1) = col"
    by (auto simp: get_column_def split: if_splits)
  with r have "cell_at r g \<in> set col" by auto
  with g(2) col assms(3) show False by force
qed

lemma extract_groupby_frame:
  assumes "extract_groupby ext df window dc uuids = Inr (df1, gcols, u1)"
    and "wf_dataframe df" and "distinct uuids"
    and nulls: "\<forall>d cols. \<forall>col \<in> set (get_groupby_with_nulls_cols ext d cols). Null \<notin> set col"
  shows "wf_dataframe df1 \<and> columns df1 = columns df @ gcols
       \<and> cells_in (columns df) df1 = rows df
       \<and> distinct u1 \<and> set gcols \<inter> set u1 = {} \<and> set u1 \<subseteq> set uuids
       \<and> (\<forall>r \<in> set (rows df1). Null \<notin> set (group_key gcols r))"
proof -
  from assms(1) obtain named where
    src: "(if keys window \<noteq> []
             then (case collect (map (\<lambda>key.
                           case get_backend_by_frontend_index (dc_column_container dc) key of
                             Inl err \<Rightarrow> Inl err
                           | Inr backend \<Rightarrow> get_column df backend) (keys window)) of
                     Inl err \<Rightarrow> Inl err
                   | Inr group_columns \<Rightarrow>
                       name_group_columns df
                         (get_groupby_with_nulls_cols ext df group_columns) uuids [])
             else (case new_temporary_column df uuids of
                     None \<Rightarrow> Inl OutOfNames
                   | Some (name, uuids') \<Rightarrow>
                       Inr ([(name, replicate (length (rows df)) (IntV 1))], uuids')))
          = Inr (named, u1)"
    and asg: "assign named df = Inr df1" and gc: "gcols = map fst named"
    by (auto simp: extract_groupby_def Let_def split: sum.splits)
  have p: "distinct (map fst named) \<and> fst ` set named \<inter> set (columns df) = {}
         \<and> fst ` set named \<inter> set u1 = {} \<and> distinct u1 \<and> set u1 \<subseteq> set uuids
         \<and> (\<forall>col \<in> snd ` set named. Null \<notin> set col)"
  proof (cases "keys window \<noteq> []")
    case True
    with src obtain group_columns where
      n: "name_group_columns df (get_groupby_with_nulls_cols ext df group_columns) uuids []
            = Inr (named, u1)"
      by (auto split: sum.splits)
    from name_group_columns_names[OF n assms(3)] nulls show ?thesis
      by auto
  next
    case False
    with src obtain name where nt: "new_temporary_column df uuids = Some (name, u1)"
      and nm: "named = [(name, replicate (length (rows df)) (IntV 1))]"
      by (auto split: option.splits)
    from new_temporary_column_distinct[OF nt assms(3)] nm show ?thesis by auto
  qed
  then have d: "distinct (map fst named)" and f: "fst ` set named \<inter> set (columns df) = {}"
    and nn: "\<forall>col \<in> snd ` set named. Null \<notin> set col" by auto
  have "wf_dataframe df1" using assign_wf[OF asg assms(2)] .
  moreover have "columns df1 = columns df @ gcols"
    using assign_columns_fresh[OF asg d f] gc by simp
  moreover have "cells_in (columns df) df1 = rows df"
    using assign_cells[OF asg f] cells_in_wf[OF assms(2)] by simp
  moreover have "\<forall>r \<in> set (rows df1). Null \<notin> set (group_key gcols r)"
    using assign_null_free[OF asg d nn] gc by simp
  moreover from p gc have "distinct u1" "set gcols \<inter> set u1 = {}" "set u1 \<subseteq> set uuids" by auto
  ultimately show ?thesis by blast
qed

lemma extract_operations_frame:
  "extract_operations ext functions dc agg_calls df uuids operations = Inr (operations', df', uuids')
     \<Longrightarrow> wf_dataframe df \<Longrightarrow> distinct uuids
     \<Longrightarrow> distinct (map (\<lambda>e. fst (snd e)) operations)
     \<Longrightarrow> set (map (\<lambda>e. fst (snd e)) operations) \<inter> set uuids = {}
     \<Longrightarrow> set (map (\<lambda>e. fst (snd e)) operations) \<inter> set (columns df) = {}
     \<Longrightarrow> \<exists>new. operations' = operations @ new \<and> length new = length agg_calls
           \<and> wf_dataframe df'
           \<and> columns df' = columns df @ concat (map (\<lambda>e. snd (snd e)) new)
           \<and> distinct (map (\<lambda>e. fst (snd e)) operations')
           \<and> set (map (\<lambda>e. fst (snd e)) operations') \<inter> set (columns df') = {}
           \<and> cells_in (columns df) df' = rows df"
proof (induction agg_calls arbitrary: df uuids operations)
  case Nil
  then show ?case by (auto simp: cells_in_wf)
next
  case (Cons agg_call agg_calls)
  from Cons.prems(1) obtain operation named u1 df1 new_column u2 where
    nm: "name_operand_columns ext dc df (getOperands agg_call) uuids [] = Inr (named, u1)"
    and asg: "assign named df = Inr df1"
    and nt: "new_temporary_column df1 u1 = Some (new_column, u2)"
    and rec: "extract_operations ext functions dc agg_calls df1 u2
                (operations @ [(operation, new_column, map fst named)])
              = Inr (operations', df', uuids')"
    by (auto simp: Let_def split: sum.splits option.splits)
  from name_operand_columns_names[OF nm Cons.prems(3)]
  have n: "distinct (map fst named)" "fst ` set named \<inter> set (columns df) = {}"
    "fst ` set named \<inter> set u1 = {}" "distinct u1" "set u1 \<subseteq> set uuids"
    "fst ` set named \<subseteq> set uuids" by auto
  have wf1: "wf_dataframe df1" using assign_wf[OF asg Cons.prems(2)] .
  have c1: "columns df1 = columns df @ map fst named"
    using assign_columns_fresh[OF asg n(1,2)] .
  have cells1: "cells_in (columns df) df1 = rows df"
    using assign_cells[OF asg n(2)] cells_in_wf[OF Cons.prems(2)] by simp
  from new_temporary_column_distinct[OF nt n(4)]
  have t: "new_column \<notin> set (columns df1)" "new_column \<in> set u1" "new_column \<notin> set u2"
    "distinct u2" "set u2 \<subseteq> set u1" by auto
  let ?ops = "operations @ [(operation, new_column, map fst named)]"
  have o1: "distinct (map (\<lambda>e. fst (snd e)) ?ops)"
    using Cons.prems(4,5) t(2) n(5) by auto
  have o2: "set (map (\<lambda>e. fst (snd e)) ?ops) \<inter> set u2 = {}"
    using Cons.prems(5) t(3,5) n(5) by auto
  have o3: "set (map (\<lambda>e. fst (snd e)) ?ops) \<inter> set (columns df1) = {}"
    using Cons.prems(5,6) t(1) n(6) c1 by auto
  from Cons.IH[OF rec wf1 t(4) o1 o2 o3] obtain new where
    ih: "operations' = ?ops @ new" "length new = length agg_calls" "wf_dataframe df'"
    "columns df' = columns df1 @ concat (map (\<lambda>e. snd (snd e)) new)"
    "distinct (map (\<lambda>e. fst (snd e)) operations')"
    "set (map (\<lambda>e. fst (snd e)) operations') \<inter> set (columns df') = {}"
    "cells_in (columns df1) df' = rows df1"
    by blast
  let ?new = "(operation, new_column, map fst named) # new"
  have "cells_in (columns df1) df' = cells_in (columns df1) df1"
    using ih(7) cells_in_wf[OF wf1] by simp
  then have "cells_in (columns df) df' = cells_in (columns df) df1"
    by (rule cells_in_subset[rotated]) (simp add: c1)
  with cells1 have "cells_in (columns df) df' = rows df" by simp
  moreover have "operations' = operations @ ?new" using ih(1) by simp
  moreover have "length ?new = length (agg_call # agg_calls)" using ih(2) by simp
  moreover have "columns df' = columns df @ concat (map (\<lambda>e. snd (snd e)) ?new)"
    using ih(4) c1 by simp
  ultimately show ?case using ih(3,5,6) by blast
qed

subsection \<open>Mapping on the groups and dropping the helper columns\<close>

lemma calculate_results_names:
  "calculate_results wg operations acc = Inr new_columns
     \<Longrightarrow> distinct (map (\<lambda>e. fst (snd e)) operations)
     \<Longrightarrow> set (map (\<lambda>e. fst (snd e)) operations) \<inter> fst ` set acc = {}
     \<Longrightarrow> map fst new_columns = map fst acc @ map (\<lambda>e. fst (snd e)) operations"
proof (induction operations arbitrary: acc)
  case Nil
  then show ?case by simp
next
  case (Cons entry operations)
  obtain f n cols where entry: "entry = (f, n, cols)" by (cases entry)
  from Cons.prems(1) entry obtain res where
    r: "calculate_results wg operations (AList.update n res acc) = Inr new_columns"
    by (auto split: sum.splits)
  from Cons.prems(2,3) entry have "n \<notin> fst ` set acc"
    "distinct (map (\<lambda>e. fst (snd e)) operations)"
    "set (map (\<lambda>e. fst (snd e)) operations) \<inter> fst ` set (AList.update n res acc) = {}"
    by (auto simp: dom_update)
  with Cons.IH[OF r] entry show ?case
    by (simp add: update_keys)
qed

lemma wf_dataframe_same_rows:
  "wf_dataframe df \<Longrightarrow> columns df' = columns df \<Longrightarrow> set (rows df') \<subseteq> set (rows df)
     \<Longrightarrow> wf_dataframe df'"
  by (auto simp: wf_dataframe_def list_all_iff)

lemma map_on_each_group_frame:
  assumes run: "map_on_each_group sort_func pg sort_columns sort_ascending sort_null_first
                  lower_bound upper_bound operations = Inr out"
    and wf: "wf_dataframe pg"
    and sort: "columns (sort_func pg sort_columns sort_ascending sort_null_first) = columns pg
               \<and> mset (rows (sort_func pg sort_columns sort_ascending sort_null_first))
                   = mset (rows pg)"
    and names: "distinct (map (\<lambda>e. fst (snd e)) operations)"
      "set (map (\<lambda>e. fst (snd e)) operations) \<inter> set (columns pg) = {}"
  shows "wf_dataframe out \<and> columns out = columns pg @ map (\<lambda>e. fst (snd e)) operations
       \<and> mset (cells_in (columns pg) out) = mset (rows pg)"
proof -
  let ?pg = "if sort_columns \<noteq> []
             then sort_func pg sort_columns sort_ascending sort_null_first else pg"
  from run obtain w new_columns where
    r: "calculate_results (w, ?pg) operations [] = Inr new_columns"
    and a: "assign new_columns ?pg = Inr out"
    by (auto simp: map_on_each_group_def Let_def split: sum.splits)
  have c: "columns ?pg = columns pg" and m: "mset (rows ?pg) = mset (rows pg)"
    using sort by auto
  from m have "set (rows ?pg) = set (rows pg)" by (rule mset_eq_setD)
  then have wf': "wf_dataframe ?pg"
    by (intro wf_dataframe_same_rows[OF wf c]) simp
  have k: "map fst new_columns = map (\<lambda>e. fst (snd e)) operations"
    using calculate_results_names[OF r names(1)] by simp
  then have d: "distinct (map fst new_columns)"
    and f: "fst ` set new_columns \<inter> set (columns ?pg) = {}"
    using names c by (auto simp flip: set_map)
  have "wf_dataframe out" using assign_wf[OF a wf'] .
  moreover have "columns out = columns pg @ map (\<lambda>e. fst (snd e)) operations"
    using assign_columns_fresh[OF a d f] c k by simp
  moreover have "cells_in (columns pg) out = rows ?pg"
    using assign_cells[OF a f] cells_in_wf[OF wf'] c by simp
  ultimately show ?thesis using m by simp
qed

lemma group_rows_mset: "mset (concat (group_rows group_columns rs)) = mset rs"
proof (induction group_columns rs rule: group_rows.induct)
  case (1 group_columns)
  then show ?case by simp
next
  case (2 group_columns r rs)
  let ?P = "\<lambda>x. group_key group_columns x = group_key group_columns r"
  have "mset (filter ?P rs) + mset (filter (\<lambda>x. \<not> ?P x) rs) = mset rs"
    by (simp add: mset_filter)
  with 2 show ?case by (simp add: ac_simps)
qed

lemma group_rows_subset:
  "g \<in> set (group_rows group_columns rs) \<Longrightarrow> set g \<subseteq> set rs"
proof (induction group_columns rs rule: group_rows.induct)
  case (1 group_columns)
  then show ?case by simp
next
  case (2 group_columns r rs)
  then show ?case by auto
qed

lemma collect_all2:
  "collect (map F gs) = Inr frames \<Longrightarrow> list_all2 (\<lambda>g frame. F g = Inr frame) gs frames"
proof (induction gs arbitrary: frames)
  case Nil
  then show ?case by simp
next
  case (Cons g gs)
  then show ?case
    by (cases "F g") (auto split: sum.splits)
qed

lemma cells_in_concat:
  "list_all2 (\<lambda>g frame. mset (cells_in cs frame) = mset (map (filter (\<lambda>(c, v). c \<in> set cs)) g))
      gs frames
   \<Longrightarrow> mset (map (filter (\<lambda>(c, v). c \<in> set cs)) (concat (map rows frames)))
       = mset (map (filter (\<lambda>(c, v). c \<in> set cs)) (concat gs))"
  by (induction rule: list_all2_induct) (auto simp: cells_in_def)

lemma groupby_apply_frame:
  assumes run: "groupby_apply group_columns f meta_columns df = Inr out"
    and nonnull: "\<forall>r \<in> set (rows df). Null \<notin> set (group_key group_columns r)"
    and wf: "wf_dataframe df" and meta: "distinct meta_columns"
    and step: "\<And>g frame. wf_dataframe g \<Longrightarrow> columns g = columns df
         \<Longrightarrow> set (rows g) \<subseteq> set (rows df) \<Longrightarrow> f g = Inr frame
         \<Longrightarrow> wf_dataframe frame \<and> columns frame = meta_columns
             \<and> mset (cells_in cs frame) = mset (cells_in cs g)"
  shows "wf_dataframe out \<and> columns out = meta_columns
       \<and> mset (cells_in cs out) = mset (cells_in cs df)"
proof -
  have grouped: "filter (\<lambda>r. Null \<notin> set (group_key group_columns r)) (rows df) = rows df"
    using nonnull by (intro filter_True) auto
  let ?gs = "group_rows group_columns (rows df)"
  let ?F = "\<lambda>g. f \<lparr>columns = columns df, rows = g\<rparr>"
  from run grouped obtain frames where
    col: "collect (map ?F ?gs) = Inr frames"
    and out: "out = \<lparr>columns = meta_columns, rows = concat (map rows frames)\<rparr>"
    by (auto simp: groupby_apply_def Let_def split: if_splits sum.splits)
  have all2: "list_all2 (\<lambda>g frame. ?F g = Inr frame) ?gs frames"
    using col by (rule collect_all2)
  have each: "list_all2 (\<lambda>g frame. wf_dataframe frame \<and> columns frame = meta_columns
        \<and> mset (cells_in cs frame) = mset (map (filter (\<lambda>(c, v). c \<in> set cs)) g)) ?gs frames"
  proof (rule list.rel_mono_strong[OF all2])
    fix g frame
    assume g: "g \<in> set ?gs" and fr: "?F g = Inr frame"
    let ?g = "\<lparr>columns = columns df, rows = g\<rparr>"
    from group_rows_subset[OF g] have sub: "set (rows ?g) \<subseteq> set (rows df)" by simp
    have "wf_dataframe ?g"
      by (rule wf_dataframe_same_rows[OF wf]) (use sub in auto)
    from step[OF this _ sub fr]
    show "wf_dataframe frame \<and> columns frame = meta_columns
        \<and> mset (cells_in cs frame) = mset (map (filter (\<lambda>(c, v). c \<in> set cs)) g)"
      by (simp add: cells_in_def)
  qed
  have e2: "list_all2 (\<lambda>g frame. mset (cells_in cs frame)
                = mset (map (filter (\<lambda>(c, v). c \<in> set cs)) g)) ?gs frames"
    by (rule list_all2_mono[OF each]) blast
  have "cells_in cs out = map (filter (\<lambda>(c, v). c \<in> set cs)) (concat (map rows frames))"
    by (simp add: cells_in_def out)
  then have "mset (cells_in cs out)
          = mset (map (filter (\<lambda>(c, v). c \<in> set cs)) (concat ?gs))"
    using cells_in_concat[OF e2] by simp
  also have "\<dots> = image_mset (filter (\<lambda>(c, v). c \<in> set cs)) (mset (concat ?gs))"
    by simp
  also have "\<dots> = mset (cells_in cs df)"
    by (simp add: group_rows_mset cells_in_def)
  finally have cells: "mset (cells_in cs out) = mset (cells_in cs df)" .
  have "\<forall>r \<in> set (rows out). map fst r = meta_columns"
  proof
    fix r assume "r \<in> set (rows out)"
    then obtain frame where "frame \<in> set frames" "r \<in> set (rows frame)"
      by (auto simp: out)
    moreover from each have "\<forall>frame \<in> set frames. wf_dataframe frame \<and> columns frame = meta_columns"
      by (induction rule: list_all2_induct) auto
    ultimately show "map fst r = meta_columns"
      by (auto simp: wf_dataframe_def list_all_iff)
  qed
  with meta have "wf_dataframe out"
    by (simp add: wf_dataframe_def list_all_iff out)
  with cells out show ?thesis by simp
qed

lemma drop_columns_frame:
  assumes "drop_columns dropped df = Inr out" and "wf_dataframe df"
  shows "wf_dataframe out \<and> columns out = filter (\<lambda>c. c \<notin> set dropped) (columns df)
       \<and> (set cs \<inter> set dropped = {} \<longrightarrow> cells_in cs out = cells_in cs df)"
proof -
  from assms(1) have out: "out = \<lparr>columns = filter (\<lambda>c. c \<notin> set dropped) (columns df),
      rows = map (filter (\<lambda>(c, v). c \<notin> set dropped)) (rows df)\<rparr>"
    by (auto simp: drop_columns_def split: if_splits)
  have keys: "\<And>r. map fst (filter (\<lambda>(c, v). c \<notin> set dropped) r)
                 = filter (\<lambda>c. c \<notin> set dropped) (map fst r)"
    by (induct_tac r) auto
  from assms(2) have "wf_dataframe out"
    by (auto simp: wf_dataframe_def list_all_iff out keys)
  moreover have "set cs \<inter> set dropped = {} \<longrightarrow> cells_in cs out = cells_in cs df"
  proof
    assume d: "set cs \<inter> set dropped = {}"
    have f: "\<And>r. filter (\<lambda>(c, v). c \<in> set cs) (filter (\<lambda>(c, v). c \<notin> set dropped) r)
             = filter (\<lambda>(c, v). c \<in> set cs) r"
      using d by (auto intro!: filter_cong)
    show "cells_in cs out = cells_in cs df"
      by (simp add: cells_in_def out f del: filter_filter)
  qed
  ultimately show ?thesis using out by simp
qed

lemma apply_window_success:
  assumes run: "apply_window ext functions window constants constant_count_offset dc
                  field_names uuids = Inr dc'"
  shows "\<exists>sc sa sn df1 gcols u1 ops df2 u2 lb ub df3.
      extract_ordering window (dc_column_container dc) = Inr (sc, sa, sn)
    \<and> extract_groupby ext (dc_df dc) window dc uuids = Inr (df1, gcols, u1)
    \<and> extract_operations ext functions dc (aggCalls window) df1 u1 [] = Inr (ops, df2, u2)
    \<and> groupby_apply gcols
           (\<lambda>pg. map_on_each_group (sort_partition_func ext) pg sc sa sn lb ub ops)
           (columns df2 @ filter (\<lambda>c. c \<notin> set (columns df2))
                            (remdups (map (\<lambda>e. fst (snd e)) ops)))
           df2 = Inr df3
    \<and> drop_columns (gcols @ concat (map (\<lambda>e. snd (snd e)) ops)) df3 = Inr (dc_df dc')"
proof (cases "extract_ordering window (dc_column_container dc)")
  case (Inl err)
  with run show ?thesis by (simp add: apply_window_def)
next
  case (Inr sort_spec)
  obtain sc sa sn where ss: "sort_spec = (sc, sa, sn)" by (cases sort_spec) auto
  note eo = Inr[unfolded ss]
  show ?thesis
  proof (cases "extract_groupby ext (dc_df dc) window dc uuids")
    case (Inl err)
    with run eo show ?thesis by (simp add: apply_window_def)
  next
    case (Inr grp)
    obtain df1 gcols u1 where g: "grp = (df1, gcols, u1)" by (cases grp) auto
    note eg = Inr[unfolded g]
    show ?thesis
    proof (cases "extract_operations ext functions dc (aggCalls window) df1 u1 []")
      case (Inl err)
      with run eo eg show ?thesis by (simp add: apply_window_def)
    next
      case (Inr opr)
      obtain ops df2 u2 where o: "opr = (ops, df2, u2)" by (cases opr) auto
      note ex = Inr[unfolded o]
      show ?thesis
      proof (cases "to_bound_description (literal_convert ext) (lowerBound window) constants
                      constant_count_offset")
        case (Inl err)
        with run eo eg ex show ?thesis by (simp add: apply_window_def Let_def)
      next
        case lb: (Inr lb)
        show ?thesis
        proof (cases "to_bound_description (literal_convert ext) (upperBound window) constants
                        constant_count_offset")
          case (Inl err)
          with run eo eg ex lb show ?thesis by (simp add: apply_window_def Let_def)
        next
          case ub: (Inr ub)
          let ?meta = "columns df2 @ filter (\<lambda>c. c \<notin> set (columns df2))
                            (remdups (map (\<lambda>e. fst (snd e)) ops))"
          show ?thesis
          proof (cases "groupby_apply gcols
             (\<lambda>pg. map_on_each_group (sort_partition_func ext) pg sc sa sn lb ub ops)
             ?meta df2")
            case (Inl err)
            with run eo eg ex lb ub show ?thesis by (simp add: apply_window_def Let_def)
          next
            case ga: (Inr df3)
            show ?thesis
            proof (cases "drop_columns (gcols @ concat (map (\<lambda>e. snd (snd e)) ops)) df3")
              case (Inl err)
              with run eo eg ex lb ub ga show ?thesis by (simp add: apply_window_def Let_def)
            next
              case dr: (Inr df4)
              with run eo eg ex lb ub ga have "dc_df dc' = df4"
                by (auto simp: apply_window_def Let_def split: sum.splits)
              with eo eg ex ga dr show ?thesis by blast
            qed
          qed
        qed
      qed
    qed
  qed
qed

lemma cell_at_filter:
  "g \<in> S \<Longrightarrow> cell_at (filter (\<lambda>(c, v). c \<in> S) r) g = cell_at r g"
  by (induction r) (auto simp: cell_at_def)

lemma group_key_filter:
  "set gcols \<subseteq> S \<Longrightarrow> group_key gcols (filter (\<lambda>(c, v). c \<in> S) r) = group_key gcols r"
  by (auto simp: group_key_def cell_at_filter)

lemma cells_in_mset_subset:
  assumes "set cs \<subseteq> set cs'" and "mset (cells_in cs' a) = mset (cells_in cs' b)"
  shows "mset (cells_in cs a) = mset (cells_in cs b)"
proof -
  have f: "\<And>r. filter (\<lambda>(c, v). c \<in> set cs) (filter (\<lambda>(c, v). c \<in> set cs') r)
             = filter (\<lambda>(c, v). c \<in> set cs) r"
    using assms(1) by (auto intro!: filter_cong)
  have g: "\<And>x. cells_in cs x = map (filter (\<lambda>(c, v). c \<in> set cs)) (cells_in cs' x)"
    by (simp add: cells_in_def f del: filter_filter)
  have "mset (cells_in cs a) = image_mset (filter (\<lambda>(c, v). c \<in> set cs)) (mset (cells_in cs' a))"
    by (simp add: g)
  also have "\<dots> = image_mset (filter (\<lambda>(c, v). c \<in> set cs)) (mset (cells_in cs' b))"
    by (simp add: assms(2))
  also have "\<dots> = mset (cells_in cs b)"
    by (simp add: g)
  finally show ?thesis .
qed

lemma filter_dropped_columns:
  "distinct (original @ dropped @ new) \<Longrightarrow>
     filter (\<lambda>c. c \<notin> set dropped) (original @ dropped @ new) = original @ new"
proof -
  assume d: "distinct (original @ dropped @ new)"
  then have "filter (\<lambda>c. c \<notin> set dropped) original = original"
    "filter (\<lambda>c. c \<notin> set dropped) dropped = []"
    "filter (\<lambda>c. c \<notin> set dropped) new = new"
    by (auto intro!: filter_True simp: filter_empty_conv)
  then show ?thesis by simp
qed


subsection \<open>Rows and columns of the result\<close>

text \<open>
  Claim C10. Let the table be well formed, the names drawn pairwise different, the
  sorting function a permutation of the rows of a partition that keeps its columns,
  and the grouping columns of \<^verbatim>\<open>get_groupby_with_nulls_cols\<close> free of nulls. Whenever
  \<^verbatim>\<open>_apply_window\<close> returns a table, its columns are the original columns followed by
  one new column for each aggregate call, so that no grouping column and no operand
  column is left; and its rows, read in the original columns, are the rows of the
  input, each as often as in the input.
\<close>

theorem window_keeps_rows_and_adds_columns:
  assumes run: "apply_window ext functions window constants constant_count_offset dc
                  field_names uuids = Inr dc'"
    and wf: "wf_dataframe (dc_df dc)"
    and uuids: "distinct uuids"
    and sort: "\<forall>pg sc sa sn.
        columns (sort_partition_func ext pg sc sa sn) = columns pg
        \<and> mset (rows (sort_partition_func ext pg sc sa sn)) = mset (rows pg)"
    and nulls: "\<forall>d cols. \<forall>col \<in> set (get_groupby_with_nulls_cols ext d cols). Null \<notin> set col"
  shows "\<exists>new_columns.
           columns (dc_df dc') = columns (dc_df dc) @ new_columns
         \<and> length new_columns = length (aggCalls window)
         \<and> wf_dataframe (dc_df dc')
         \<and> mset (cells_in (columns (dc_df dc)) (dc_df dc')) = mset (rows (dc_df dc))"
proof -
  let ?df0 = "dc_df dc"
  let ?name = "\<lambda>e :: operation_entry. fst (snd e)"
  let ?opnds = "\<lambda>e :: operation_entry. snd (snd e)"
  from apply_window_success[OF run] obtain sc sa sn df1 gcols u1 ops df2 u2 lb ub df3 where
    eo: "extract_ordering window (dc_column_container dc) = Inr (sc, sa, sn)"
    and eg: "extract_groupby ext ?df0 window dc uuids = Inr (df1, gcols, u1)"
    and ex: "extract_operations ext functions dc (aggCalls window) df1 u1 [] = Inr (ops, df2, u2)"
    and ga: "groupby_apply gcols
           (\<lambda>pg. map_on_each_group (sort_partition_func ext) pg sc sa sn lb ub ops)
           (columns df2 @ filter (\<lambda>c. c \<notin> set (columns df2)) (remdups (map ?name ops)))
           df2 = Inr df3"
    and dr: "drop_columns (gcols @ concat (map ?opnds ops)) df3 = Inr (dc_df dc')"
    by blast
  let ?N = "map ?name ops"
  let ?T = "gcols @ concat (map ?opnds ops)"
  let ?meta = "columns df2 @ filter (\<lambda>c. c \<notin> set (columns df2)) (remdups ?N)"
  define df4 where "df4 = dc_df dc'"
  have out: "dc_df dc' = df4" by (simp add: df4_def)
  note dr = dr[folded df4_def]
  from extract_groupby_frame[OF eg wf uuids nulls]
  have f1: "wf_dataframe df1" "columns df1 = columns ?df0 @ gcols"
    "cells_in (columns ?df0) df1 = rows ?df0" "distinct u1" "set gcols \<inter> set u1 = {}"
    "\<forall>r \<in> set (rows df1). Null \<notin> set (group_key gcols r)"
    by auto
  from extract_operations_frame[OF ex f1(1,4)]
  obtain new where f2: "ops = new" "length new = length (aggCalls window)" "wf_dataframe df2"
    "columns df2 = columns df1 @ concat (map ?opnds new)"
    "distinct ?N" "set ?N \<inter> set (columns df2) = {}"
    "cells_in (columns df1) df2 = rows df1"
    by auto
  have meta: "?meta = columns df2 @ ?N"
    using f2(5,6) by (auto simp: distinct_remdups_id intro!: filter_True)
  have dmeta: "distinct ?meta"
    using f2(3,5,6) unfolding meta by (auto simp: wf_dataframe_def)
  have nonnull2: "\<forall>r \<in> set (rows df2). Null \<notin> set (group_key gcols r)"
  proof
    fix r assume "r \<in> set (rows df2)"
    then have "filter (\<lambda>(c, v). c \<in> set (columns df1)) r \<in> set (cells_in (columns df1) df2)"
      by (auto simp: cells_in_def)
    with f2(7) f1(6)
    have "Null \<notin> set (group_key gcols (filter (\<lambda>(c, v). c \<in> set (columns df1)) r))"
      by auto
    moreover have "set gcols \<subseteq> set (columns df1)" using f1(2) by auto
    ultimately show "Null \<notin> set (group_key gcols r)"
      by (simp add: group_key_filter)
  qed
  have sub0: "set (columns ?df0) \<subseteq> set (columns df2)"
    using f1(2) f2(4) by auto
  have f3': "wf_dataframe df3 \<and> columns df3 = ?meta
      \<and> mset (cells_in (columns ?df0) df3) = mset (cells_in (columns ?df0) df2)"
  proof (rule groupby_apply_frame[OF ga nonnull2 f2(3) dmeta])
    fix g frame
    assume wg: "wf_dataframe g" and cg: "columns g = columns df2"
      and run_g: "map_on_each_group (sort_partition_func ext) g sc sa sn lb ub ops = Inr frame"
    from sort have s: "columns (sort_partition_func ext g sc sa sn) = columns g
        \<and> mset (rows (sort_partition_func ext g sc sa sn)) = mset (rows g)" by blast
    from f2(6) cg have disj: "set ?N \<inter> set (columns g) = {}" by simp
    from map_on_each_group_frame[OF run_g wg s f2(5) disj]
    have m: "wf_dataframe frame" "columns frame = columns g @ ?N"
      "mset (cells_in (columns g) frame) = mset (rows g)" by auto
    from m(3) cells_in_wf[OF wg]
    have "mset (cells_in (columns g) frame) = mset (cells_in (columns g) g)" by simp
    then have "mset (cells_in (columns ?df0) frame) = mset (cells_in (columns ?df0) g)"
      by (rule cells_in_mset_subset[rotated]) (use sub0 cg in simp)
    with m(1,2) cg meta
    show "wf_dataframe frame \<and> columns frame = ?meta
             \<and> mset (cells_in (columns ?df0) frame) = mset (cells_in (columns ?df0) g)"
      by simp
  qed
  then have f3: "wf_dataframe df3" "columns df3 = ?meta"
    "mset (cells_in (columns ?df0) df3) = mset (cells_in (columns ?df0) df2)"
    by simp_all
  have c3: "columns df3 = columns ?df0 @ ?T @ ?N"
    using f3(2) meta f2(1,4) f1(2) by simp
  from f3(1) c3 have d3: "distinct (columns ?df0 @ ?T @ ?N)"
    by (simp add: wf_dataframe_def)
  then have disj0: "set (columns ?df0) \<inter> set ?T = {}" by auto
  from drop_columns_frame[OF dr f3(1), of "columns ?df0"] disj0
  have f4: "wf_dataframe df4" "columns df4 = filter (\<lambda>c. c \<notin> set ?T) (columns df3)"
    "cells_in (columns ?df0) df4 = cells_in (columns ?df0) df3"
    by auto
  have c4: "columns df4 = columns ?df0 @ ?N"
    unfolding f4(2) c3 using d3 by (rule filter_dropped_columns)
  have "cells_in (columns df1) df2 = cells_in (columns df1) df1"
    using f2(7) cells_in_wf[OF f1(1)] by simp
  then have "cells_in (columns ?df0) df2 = cells_in (columns ?df0) df1"
    by (rule cells_in_subset[rotated]) (simp add: f1(2))
  with f1(3) f3(3) f4(3) have "mset (cells_in (columns ?df0) df4) = mset (rows ?df0)"
    by simp
  with c4 f4(1) f2(1,2) out show ?thesis
    by (intro exI[of _ ?N]) simp
qed

subsection \<open>The concrete sorting and grouping functions meet the conditions\<close>

lemma stable_sort_partition_permutes:
  "columns (stable_sort_partition pg sc sa sn) = columns pg
   \<and> mset (rows (stable_sort_partition pg sc sa sn)) = mset (rows pg)"
proof -
  have "mset (foldr (\<lambda>(c, a, n) rs. sort_by_column c a n rs) keys_spec rs) = mset rs"
    for keys_spec :: "(string \<times> bool \<times> bool) list" and rs
    by (induction keys_spec) (auto simp: sort_by_column_def)
  then show ?thesis
    by (simp add: stable_sort_partition_def)
qed

lemma null_flags_and_values_null_free:
  "\<forall>col \<in> set (null_flags_and_values d cols). Null \<notin> set col"
  by (auto simp: null_flags_and_values_def)

text \<open>
  The theorem of C10 on the concrete table, partitioned by \<open>g\<close> and ordered by \<open>x\<close>, with
  a running sum and a row number: the result has the two original columns and the
  two new ones, and the three rows of the input.
\<close>

theorem window_keeps_rows_and_adds_columns_witness:
  "wf_dataframe (dc_df example_container)
   \<and> apply_window example_externals Map.empty
        (example_window
           [\<lparr>getOperatorName = ''SUM'', getOperands = [RexInputRef 1]\<rparr>,
            \<lparr>getOperatorName = ''ROW_NUMBER'', getOperands = []\<rparr>])
        [] 2 example_container [''g'', ''x'', ''s'', ''rn'']
        [''u1'', ''u2'', ''u3'', ''u4'', ''u5'']
      = Inr \<lparr>dc_df =
               \<lparr>columns = [''g'', ''x'', ''u4'', ''u5''],
                rows = [[(''g'', IntV 1), (''x'', IntV 1), (''u4'', IntV 1), (''u5'', IntV 1)],
                        [(''g'', IntV 1), (''x'', IntV 3), (''u4'', IntV 4), (''u5'', IntV 2)],
                        [(''g'', Null), (''x'', IntV 5), (''u4'', IntV 5), (''u5'', IntV 1)]]\<rparr>,
             dc_column_container =
               \<lparr>frontend_columns = [''g'', ''x'', ''s'', ''rn''],
                frontend_backend_mapping =
                  [(''g'', ''g''), (''x'', ''x''), (''s'', ''u4''), (''rn'', ''u5'')]\<rparr>\<rparr>
   \<and> (\<exists>new_columns.
         [''g'', ''x'', ''u4'', ''u5''] = columns (dc_df example_container) @ new_columns
         \<and> length new_columns = 2)
   \<and> mset (cells_in (columns (dc_df example_container))
         \<lparr>columns = [''g'', ''x'', ''u4'', ''u5''],
          rows = [[(''g'', IntV 1), (''x'', IntV 1), (''u4'', IntV 1), (''u5'', IntV 1)],
                  [(''g'', IntV 1), (''x'', IntV 3), (''u4'', IntV 4), (''u5'', IntV 2)],
                  [(''g'', Null), (''x'', IntV 5), (''u4'', IntV 5), (''u5'', IntV 1)]]\<rparr>)
      = mset (rows (dc_df example_container))"
proof -
  let ?window = "example_window
           [\<lparr>getOperatorName = ''SUM'', getOperands = [RexInputRef 1]\<rparr>,
            \<lparr>getOperatorName = ''ROW_NUMBER'', getOperands = []\<rparr>]"
  let ?out = "\<lparr>dc_df =
               \<lparr>columns = [''g'', ''x'', ''u4'', ''u5''],
                rows = [[(''g'', IntV 1), (''x'', IntV 1), (''u4'', IntV 1), (''u5'', IntV 1)],
                        [(''g'', IntV 1), (''x'', IntV 3), (''u4'', IntV 4), (''u5'', IntV 2)],
                        [(''g'', Null), (''x'', IntV 5), (''u4'', IntV 5), (''u5'', IntV 1)]]\<rparr>,
             dc_column_container =
               \<lparr>frontend_columns = [''g'', ''x'', ''s'', ''rn''],
                frontend_backend_mapping =
                  [(''g'', ''g''), (''x'', ''x''), (''s'', ''u4''), (''rn'', ''u5'')]\<rparr>\<rparr>"
  have run: "apply_window example_externals Map.empty ?window [] 2 example_container
               [''g'', ''x'', ''s'', ''rn''] [''u1'', ''u2'', ''u3'', ''u4'', ''u5''] = Inr ?out"
    by code_simp
  have wf: "wf_dataframe (dc_df example_container)"
    by (simp add: wf_dataframe_def example_container_def example_table_def)
  have d: "distinct [''u1'', ''u2'', ''u3'', ''u4'', ''u5'']"
    by simp
  have s: "\<forall>pg sc sa sn.
        columns (sort_partition_func example_externals pg sc sa sn) = columns pg
        \<and> mset (rows (sort_partition_func example_externals pg sc sa sn)) = mset (rows pg)"
    by (simp add: example_externals_def stable_sort_partition_permutes)
  have n: "\<forall>d cols. \<forall>col \<in> set (get_groupby_with_nulls_cols example_externals d cols).
             Null \<notin> set col"
    by (simp add: example_externals_def null_flags_and_values_null_free)
  have a: "length (aggCalls ?window) = 2"
    by (simp add: example_window_def)
  from window_keeps_rows_and_adds_columns [OF run wf d s n] obtain new_columns where
    t: "columns (dc_df ?out) = columns (dc_df example_container) @ new_columns"
      "length new_columns = length (aggCalls ?window)"
      "mset (cells_in (columns (dc_df example_container)) (dc_df ?out))
         = mset (rows (dc_df example_container))"
    by blast
  from t(1,2) a have c: "\<exists>new_columns.
         [''g'', ''x'', ''u4'', ''u5''] = columns (dc_df example_container) @ new_columns
         \<and> length new_columns = 2"
    by (intro exI[of _ new_columns]) simp
  from t(3) have m: "mset (cells_in (columns (dc_df example_container))
         \<lparr>columns = [''g'', ''x'', ''u4'', ''u5''],
          rows = [[(''g'', IntV 1), (''x'', IntV 1), (''u4'', IntV 1), (''u5'', IntV 1)],
                  [(''g'', IntV 1), (''x'', IntV 3), (''u4'', IntV 4), (''u5'', IntV 2)],
                  [(''g'', Null), (''x'', IntV 5), (''u4'', IntV 5), (''u5'', IntV 1)]]\<rparr>)
      = mset (rows (dc_df example_container))"
    by simp
  from wf run c m show ?thesis by blast
qed

end
